theory Spec2Isabelle
  imports Complex_Main "HOL-Library.Multiset" "HOL-Library.Char_ord" "HOL-Library.List_Lexorder"
begin

section \<open>Conventions of the embedding\<close>

text \<open>
  The video analyzer is TypeScript. A JavaScript \<^verbatim>\<open>number\<close> that the code uses as a count or
  an index is a \<open>nat\<close> or an \<open>int\<close>. A TF-IDF weight or a cosine similarity is a double: the
  model computes it with the rounded operations of the next section, in the order of the
  code. Seconds and the products \<^verbatim>\<open>nDocs * 0.95\<close> and \<^verbatim>\<open>n / 2\<close> are \<open>real\<close>s, used only under
  \<^verbatim>\<open>Math.floor\<close>, \<^verbatim>\<open>Math.round\<close> and \<^verbatim>\<open>toFixed\<close>. \<^verbatim>\<open>NaN\<close> and \<^verbatim>\<open>undefined\<close> are \<open>None\<close> of an option type where the
  code can produce them. Strings are \<open>string\<close>: the OCR texts and file names are taken to be
  ASCII. A rejected promise or a thrown exception is \<open>Inl\<close> of a sum type.
\<close>

datatype error = Error string

section \<open>Double arithmetic\<close>

text \<open>
  A finite double is the real number it denotes. \<open>double_round x\<close> is the double nearest
  to \<open>x\<close>: the significand has 53 bits, and of two doubles equally near the one with the
  even significand is taken (IEEE 754, round to nearest, ties to even). The exponent range
  is not modelled. The vectorizer and the selector stay inside it: a count and a number of
  documents are integers below \<open>2^53\<close>, so with a logarithm between 0 and 37 on \<open>[1, 2^53]\<close>
  a weight is 0 or lies between 1 and 1500; a row has fewer than \<open>2^32\<close> entries, so the
  entries of a normalized row, of a centroid, and their products are 0 or far above
  \<open>2^-1022\<close>. Nothing overflows or becomes subnormal there.
\<close>

definition round_even :: "real \<Rightarrow> int" where
  "round_even m =
     (let f = \<lfloor>m\<rfloor>
      in if m - of_int f < 1 / 2 then f
         else if 1 / 2 < m - of_int f then f + 1
         else if even f then f else f + 1)"

definition double_round :: "real \<Rightarrow> real" where
  "double_round x =
     (if x = 0 then 0
      else
        (let ulp = 2 powr (of_int \<lfloor>log 2 \<bar>x\<bar>\<rfloor> - 52)
         in sgn x * of_int (round_even (\<bar>x\<bar> / ulp)) * ulp))"

text \<open>
  The operators \<^verbatim>\<open>+\<close>, \<^verbatim>\<open>-\<close>, \<^verbatim>\<open>*\<close>, \<^verbatim>\<open>/\<close> and \<^verbatim>\<open>Math.sqrt\<close> give the double nearest to the exact
  result. ECMAScript leaves the precision of \<^verbatim>\<open>Math.log\<close> to the implementation (only
  \<^verbatim>\<open>Math.log(1)\<close> is fixed, to 0), so \<^verbatim>\<open>Math.log\<close> is a parameter \<open>lg\<close> of everything that calls it.
\<close>

definition fadd :: "real \<Rightarrow> real \<Rightarrow> real" where
  "fadd x y = double_round (x + y)"

definition fsub :: "real \<Rightarrow> real \<Rightarrow> real" where
  "fsub x y = double_round (x - y)"

definition fmul :: "real \<Rightarrow> real \<Rightarrow> real" where
  "fmul x y = double_round (x * y)"

definition fdiv :: "real \<Rightarrow> real \<Rightarrow> real" where
  "fdiv x y = double_round (x / y)"

definition fsqrt :: "real \<Rightarrow> real" where
  "fsqrt x = double_round (sqrt x)"

section \<open>Frame numbers and timestamps (index.ts)\<close>

definition digit_char :: "nat \<Rightarrow> char" where
  "digit_char d = ''0123456789'' ! d"

text \<open>\<^verbatim>\<open>String(n)\<close> for a non-negative integer below \<open>10^21\<close>: its decimal digits.\<close>

function String_nat :: "nat \<Rightarrow> string" where
  "String_nat n = (if n < 10 then [digit_char n] else String_nat (n div 10) @ [digit_char (n mod 10)])"
  by pat_completeness auto
termination
  by (relation "measure id") auto

declare String_nat.simps [simp del]

text \<open>\<^verbatim>\<open>s.padStart(k, "0")\<close>.\<close>

definition padStart0 :: "nat \<Rightarrow> string \<Rightarrow> string" where
  "padStart0 k s = replicate (k - length s) CHR ''0'' @ s"

text \<open>
  \<^verbatim>\<open>x.toFixed(1)\<close> for \<open>0 \<le> x < 10^21\<close>: the integer \<open>n\<close> with \<open>n / 10\<close> closest to \<open>x\<close>, the
  larger one on a tie, printed with one digit after the point.
\<close>

definition toFixed1 :: "real \<Rightarrow> string" where
  "toFixed1 x = (let n = nat \<lfloor>x * 10 + 1 / 2\<rfloor>
                 in String_nat (n div 10) @ ''.'' @ String_nat (n mod 10))"

text \<open>\<^verbatim>\<open>a % b\<close> on non-negative numbers with \<open>b > 0\<close>.\<close>

definition js_rem :: "real \<Rightarrow> real \<Rightarrow> real" where
  "js_rem a b = a - b * of_int \<lfloor>a / b\<rfloor>"

definition SAMPLE_FPS :: real where
  "SAMPLE_FPS = 15"

text \<open>
  \<^verbatim>\<open>frameNumberToTimestamp(frameNum)\<close>. The argument is what \<^verbatim>\<open>parseInt\<close> returned: an integer,
  or \<^verbatim>\<open>NaN\<close> (\<open>None\<close>), for which every comparison is false and \<^verbatim>\<open>String\<close> prints \<^verbatim>\<open>NaN\<close>.
\<close>

definition frameNumberToTimestamp :: "int option \<Rightarrow> string" where
  "frameNumberToTimestamp frameNum =
     (case frameNum of
        None \<Rightarrow> padStart0 2 ''NaN'' @ '':'' @ padStart0 4 ''NaN''
      | Some fnum \<Rightarrow>
          (let totalSeconds = max 0 ((of_int fnum - 1) / SAMPLE_FPS);
               hours = nat \<lfloor>totalSeconds / 3600\<rfloor>;
               minutes = nat \<lfloor>js_rem totalSeconds 3600 / 60\<rfloor>;
               secs = js_rem totalSeconds 60
           in if hours > 0
              then padStart0 2 (String_nat hours) @ '':'' @ padStart0 2 (String_nat minutes) @ '':''
                     @ padStart0 4 (toFixed1 secs)
              else padStart0 2 (String_nat minutes) @ '':'' @ padStart0 4 (toFixed1 secs)))"

section \<open>Text vectorizer (tfidf.ts)\<close>

definition STOP_WORDS :: "string list" where
  "STOP_WORDS = [
    ''a'', ''an'', ''and'', ''are'', ''as'', ''at'', ''be'', ''but'', ''by'', ''for'', ''if'',
    ''in'', ''into'', ''is'', ''it'', ''no'', ''not'', ''of'', ''on'', ''or'', ''such'',
    ''that'', ''the'', ''their'', ''then'', ''there'', ''these'', ''they'', ''this'', ''to'',
    ''was'', ''will'', ''with'', ''i'', ''me'', ''my'', ''myself'', ''we'', ''our'', ''ours'',
    ''ourselves'', ''you'', ''your'', ''yours'', ''yourself'', ''yourselves'', ''he'', ''him'',
    ''his'', ''himself'', ''she'', ''her'', ''hers'', ''herself'', ''its'', ''itself'',
    ''them'', ''theirs'', ''themselves'', ''what'', ''which'', ''who'', ''whom'', ''when'',
    ''where'', ''why'', ''how'', ''all'', ''each'', ''every'', ''both'', ''few'', ''more'',
    ''most'', ''other'', ''some'', ''am'', ''been'', ''being'', ''do'', ''does'', ''did'',
    ''doing'', ''would'', ''should'', ''could'', ''ought'', ''might'', ''shall'', ''can'',
    ''need'', ''dare'', ''had'', ''has'', ''have'', ''having'', ''s'', ''t'', ''d'', ''ll'',
    ''re'', ''ve'', ''m'', ''about'', ''above'', ''after'', ''again'', ''against'', ''before'',
    ''below'', ''between'', ''during'', ''from'', ''further'', ''here'', ''just'', ''nor'',
    ''only'', ''own'', ''same'', ''so'', ''than'', ''too'', ''very'', ''now'', ''don'',
    ''didn'', ''doesn'', ''hadn'', ''hasn'', ''haven'', ''isn'', ''wasn'', ''weren'', ''won'',
    ''wouldn'', ''shouldn'', ''couldn'', ''down'', ''off'', ''out'', ''over'', ''under'',
    ''until'', ''up'']"

text \<open>The characters that \<^verbatim>\<open>\s\<close> and \<^verbatim>\<open>trim\<close> treat as white space, among the ASCII ones.\<close>

definition is_space :: "char \<Rightarrow> bool" where
  "is_space c = (c \<in> set [CHR 0x09, CHR 0x0A, CHR 0x0B, CHR 0x0C, CHR 0x0D, CHR 0x20])"

definition toLowerCase_char :: "char \<Rightarrow> char" where
  "toLowerCase_char c =
     (case map_of (zip ''ABCDEFGHIJKLMNOPQRSTUVWXYZ'' ''abcdefghijklmnopqrstuvwxyz'') c of
        Some l \<Rightarrow> l
      | None \<Rightarrow> c)"

text \<open>\<^verbatim>\<open>.replace(/[^a-z0-9\s]/g, " ")\<close>, one character at a time.\<close>

definition replace_other :: "char \<Rightarrow> char" where
  "replace_other c =
     (if c \<in> set ''abcdefghijklmnopqrstuvwxyz0123456789'' \<or> is_space c then c else CHR '' '')"

text \<open>
  \<^verbatim>\<open>.split(/\s+/)\<close>: the pieces between maximal runs of white space, the empty pieces at
  the two ends included. \<open>cur\<close> is the piece being read, reversed; \<open>inws\<close> says that the
  last character was white space.
\<close>

fun split_ws :: "string \<Rightarrow> string \<Rightarrow> bool \<Rightarrow> string list" where
  "split_ws [] cur inws = [rev cur]"
| "split_ws (c # cs) cur inws =
     (if is_space c then (if inws then split_ws cs [] True else rev cur # split_ws cs [] True)
      else split_ws cs (c # cur) False)"

text \<open>The bigrams \<^verbatim>\<open>`${words[i]} ${words[i + 1]}`\<close> for \<open>i < words.length - 1\<close>.\<close>

fun bigrams :: "string list \<Rightarrow> string list" where
  "bigrams (w1 # w2 # ws) = (w1 @ '' '' @ w2) # bigrams (w2 # ws)"
| "bigrams ws = []"

definition tokenize :: "string \<Rightarrow> string list" where
  "tokenize text =
     (let words = filter (\<lambda>w. length w > 0 \<and> w \<notin> set STOP_WORDS)
                    (split_ws (map replace_other (map toLowerCase_char text)) [] False)
      in words @ bigrams words)"

definition trim :: "string \<Rightarrow> string" where
  "trim s = rev (dropWhile is_space (rev (dropWhile is_space s)))"

record TfidfResult =
  matrix :: "real list list"
  vocabulary :: "string list"
  originalIndices :: "nat list"

text \<open>
  A JavaScript \<^verbatim>\<open>Map<string, number>\<close> that counts: an association list in insertion order.
  \<open>map_incr m k\<close> is \<^verbatim>\<open>m.set(k, (m.get(k) ?? 0) + 1)\<close>: a key that is present keeps its
  place, a new key goes to the end.
\<close>

fun map_incr :: "(string \<times> nat) list \<Rightarrow> string \<Rightarrow> (string \<times> nat) list" where
  "map_incr [] k = [(k, 1)]"
| "map_incr ((k', v) # m) k = (if k' = k then (k', v + 1) # m else (k', v) # map_incr m k)"

text \<open>\<^verbatim>\<open>new Set(tokens)\<close>, iterated: the distinct tokens in the order of their first occurrence.\<close>

definition uniqueTokens :: "string list \<Rightarrow> string list" where
  "uniqueTokens tokens = rev (remdups (rev tokens))"

text \<open>The texts that are not empty after \<^verbatim>\<open>trim\<close>, each with its index in \<open>texts\<close>.\<close>

definition nonEmpty :: "string list \<Rightarrow> (nat \<times> string) list" where
  "nonEmpty texts = filter (\<lambda>(i, t). length (trim t) > 0) (enumerate 0 texts)"

definition dfCounts :: "string list list \<Rightarrow> (string \<times> nat) list" where
  "dfCounts tokenizedDocs =
     fold (\<lambda>tokens m. fold (\<lambda>token m. map_incr m token) (uniqueTokens tokens) m) tokenizedDocs []"

definition maxDf :: "nat \<Rightarrow> nat" where
  "maxDf nDocs = nat \<lfloor>real nDocs * 0.95\<rfloor>"

definition build_vocabulary :: "nat \<Rightarrow> (string \<times> nat) list \<Rightarrow> string list" where
  "build_vocabulary nDocs dfc =
     (let vocabulary = map fst (filter (\<lambda>(term, df). df \<ge> 1 \<and> (nDocs \<le> 1 \<or> df \<le> maxDf nDocs)) dfc)
      in if length vocabulary = 0 then map fst dfc else vocabulary)"

text \<open>\<open>vocabIndex\<close>: each term of the vocabulary with its position.\<close>

definition vocabIndex :: "string list \<Rightarrow> string \<Rightarrow> nat option" where
  "vocabIndex vocab = map_of (zip vocab [0..<length vocab])"

definition termFrequency :: "string list \<Rightarrow> string list \<Rightarrow> (string \<times> nat) list" where
  "termFrequency vocab tokens =
     fold (\<lambda>token tf. if vocabIndex vocab token \<noteq> None then map_incr tf token else tf) tokens []"

definition tfidf_weight :: "(real \<Rightarrow> real) \<Rightarrow> nat \<Rightarrow> nat \<Rightarrow> nat \<Rightarrow> real" where
  "tfidf_weight lg nDocs df cnt =
     (let tfValue = fadd 1 (lg (real cnt));
          idfValue = fadd (lg (fdiv (fadd 1 (real nDocs)) (fadd 1 (real df)))) 1
      in fmul tfValue idfValue)"

text \<open>The row of one document before it is normalized.\<close>

definition raw_row :: "(real \<Rightarrow> real) \<Rightarrow> nat \<Rightarrow> (string \<times> nat) list \<Rightarrow> string list \<Rightarrow> string list \<Rightarrow> real list" where
  "raw_row lg nDocs dfc vocab tokens =
     fold (\<lambda>(term, cnt) row.
             row[the (vocabIndex vocab term) := tfidf_weight lg nDocs (the (map_of dfc term)) cnt])
          (termFrequency vocab tokens) (replicate (length vocab) 0)"

definition l2_normalize :: "real list \<Rightarrow> real list" where
  "l2_normalize row =
     (let norm = fsqrt (foldl (\<lambda>acc v. fadd acc (fmul v v)) 0 row)
      in if norm > 0 then map (\<lambda>v. fdiv v norm) row else row)"

definition buildTfidfMatrix :: "(real \<Rightarrow> real) \<Rightarrow> string list \<Rightarrow> TfidfResult" where
  "buildTfidfMatrix lg texts =
     (let nonEmptyIndices = map fst (nonEmpty texts);
          nonEmptyTexts = map snd (nonEmpty texts)
      in if length nonEmptyTexts = 0
         then \<lparr>matrix = [], vocabulary = [], originalIndices = []\<rparr>
         else
           (let tokenizedDocs = map tokenize nonEmptyTexts;
                dfc = dfCounts tokenizedDocs;
                nDocs = length nonEmptyTexts;
                vocab = build_vocabulary nDocs dfc
            in \<lparr>matrix = map (\<lambda>tokens. l2_normalize (raw_row lg nDocs dfc vocab tokens)) tokenizedDocs,
                vocabulary = vocab,
                originalIndices = nonEmptyIndices\<rparr>))"

text \<open>
  \<^verbatim>\<open>cosineSimilarity(a, b)\<close>: one loop over the indices of \<open>a\<close> adds to the three sums
  \<open>(dot, normA, normB)\<close>; every caller passes vectors of one length.
\<close>

definition cosine_sums :: "real list \<Rightarrow> real list \<Rightarrow> real \<times> real \<times> real" where
  "cosine_sums a b =
     foldl (\<lambda>(dot, normA, normB) i.
              (fadd dot (fmul (a ! i) (b ! i)),
               fadd normA (fmul (a ! i) (a ! i)),
               fadd normB (fmul (b ! i) (b ! i))))
           (0, 0, 0) [0..<length a]"

definition cosineSimilarity :: "real list \<Rightarrow> real list \<Rightarrow> real" where
  "cosineSimilarity a b =
     (case cosine_sums a b of (dot, normA, normB) \<Rightarrow>
        (let denom = fmul (fsqrt normA) (fsqrt normB)
         in if denom = 0 then 0 else fdiv dot denom))"

definition cosineDistance :: "real list \<Rightarrow> real list \<Rightarrow> real" where
  "cosineDistance a b = fsub 1 (cosineSimilarity a b)"

section \<open>Representative selection (representativeSelection.ts)\<close>

text \<open>
  The centroid: an array of \<open>dim\<close> zeros to which the rows are added one after the other,
  then divided by the number of rows.
\<close>

definition centroid_of :: "real list list \<Rightarrow> real list" where
  "centroid_of m =
     (let dim = length (m ! 0);
          added = foldl (\<lambda>centroid row. map (\<lambda>j. fadd (centroid ! j) (row ! j)) [0..<dim])
                   (replicate dim 0) m
      in map (\<lambda>x. fdiv x (real (length m))) added)"

text \<open>
  One turn of the loop that looks for the best row. \<open>bestSimilarity\<close> starts at \<^verbatim>\<open>-Infinity\<close>,
  which is \<open>None\<close>: every similarity is greater.
\<close>

definition best_step :: "real list list \<Rightarrow> real list \<Rightarrow> nat \<Rightarrow> nat \<times> real option \<Rightarrow> nat \<times> real option" where
  "best_step m centroid i best =
     (let sim = cosineSimilarity (m ! i) centroid
      in if (case snd best of None \<Rightarrow> True | Some bestSimilarity \<Rightarrow> sim > bestSimilarity)
         then (i, Some sim) else best)"

definition selectRepresentative :: "(real \<Rightarrow> real) \<Rightarrow> string list \<Rightarrow> string list \<Rightarrow> error + string" where
  "selectRepresentative lg groupFramePaths groupTexts =
     (if length groupFramePaths = 0 then Inl (Error ''Cannot select representative from empty group'')
      else if length groupFramePaths = 1 then Inr (groupFramePaths ! 0)
      else
        (let r = buildTfidfMatrix lg groupTexts
         in if length (matrix r) = 0 then Inr (groupFramePaths ! 0)
            else if length (matrix r) = 1 then Inr (groupFramePaths ! (originalIndices r ! 0))
            else
              (let centroid = centroid_of (matrix r);
                   bestIdx = fst (fold (best_step (matrix r) centroid) [0..<length (matrix r)] (0, None))
               in Inr (groupFramePaths ! (originalIndices r ! bestIdx)))))"

section \<open>Clustering (clustering.ts)\<close>

text \<open>
  \<^verbatim>\<open>kmeans\<close> of ml-kmeans and \<^verbatim>\<open>DBSCAN.run\<close> of density-clustering are libraries: the model
  takes them as parameters. \<open>kmeans data k\<close> stands for the call with k-means++
  initialization, 100 iterations at most and seed 42, and gives \<^verbatim>\<open>result.clusters\<close>;
  \<open>dbscan data eps minPts dist\<close> gives the clusters as lists of point indices.
\<close>

type_synonym kmeans_lib = "real list list \<Rightarrow> nat \<Rightarrow> int list"
type_synonym dbscan_lib =
  "real list list \<Rightarrow> real \<Rightarrow> nat \<Rightarrow> (real list \<Rightarrow> real list \<Rightarrow> real) \<Rightarrow> nat list list"

definition clusterKMeans :: "kmeans_lib \<Rightarrow> real list list \<Rightarrow> int \<Rightarrow> int list" where
  "clusterKMeans kmeans tfidfMatrix nClusters =
     (if length tfidfMatrix = 0 then []
      else
        (let effectiveClusters = min nClusters (int (length tfidfMatrix))
         in if effectiveClusters \<le> 1 then replicate (length tfidfMatrix) 0
            else kmeans tfidfMatrix (nat effectiveClusters)))"

text \<open>
  The labels start at \<open>-1\<close>; every point of cluster \<open>clusterIdx\<close> gets the label \<open>clusterIdx\<close>.
  The library returns indices of data points, so every write is inside the array.
\<close>

definition clusterDBSCAN :: "dbscan_lib \<Rightarrow> real list list \<Rightarrow> real \<Rightarrow> nat \<Rightarrow> int list" where
  "clusterDBSCAN dbscan tfidfMatrix eps minSamples =
     (if length tfidfMatrix = 0 then []
      else if length tfidfMatrix < minSamples then replicate (length tfidfMatrix) 0
      else
        (let clusters = dbscan tfidfMatrix eps minSamples cosineDistance
         in fold (\<lambda>(clusterIdx, points) labels.
                    fold (\<lambda>pointIdx labels. labels[pointIdx := int clusterIdx]) points labels)
              (enumerate 0 clusters) (replicate (length tfidfMatrix) (- 1))))"

section \<open>Text extraction (ocr.ts)\<close>

type_synonym tesseract_cli = "string \<Rightarrow> string \<Rightarrow> error + string"

text \<open>
  \<^verbatim>\<open>ocrFrame\<close>: the standard output of the tesseract process, or the empty text when the
  call fails.
\<close>

definition ocrFrame :: "tesseract_cli \<Rightarrow> string \<Rightarrow> string \<Rightarrow> string" where
  "ocrFrame tesseract framePath lng =
     (case tesseract framePath lng of Inr stdout \<Rightarrow> stdout | Inl e \<Rightarrow> [])"

text \<open>
  \<^verbatim>\<open>ocrAllFrames\<close> starts \<^verbatim>\<open>Math.min(workers, frames.length)\<close> calls of \<^verbatim>\<open>processNext\<close>, which
  share \<open>queue\<close> and \<open>results\<close> and give up control at each \<^verbatim>\<open>await\<close>. A worker is at the
  head of its loop (\<open>AtLoop\<close>), waits for the text of the frame it took (\<open>Awaiting\<close>), or has
  left the loop (\<open>Left\<close>). The steps of the pool interleave in any order. The counter
  \<^verbatim>\<open>completed\<close> only feeds the log and is left out.
\<close>

datatype worker = AtLoop | Awaiting string | Left

record pool =
  queue :: "string list"
  results :: "string \<rightharpoonup> string"
  procs :: "worker list"

inductive pool_step :: "tesseract_cli \<Rightarrow> string \<Rightarrow> pool \<Rightarrow> pool \<Rightarrow> bool"
  for tesseract :: tesseract_cli and lng :: string where
  shift: "i < length (procs s) \<Longrightarrow> procs s ! i = AtLoop \<Longrightarrow> queue s = framePath # rest \<Longrightarrow>
          pool_step tesseract lng s (s\<lparr>queue := rest, procs := (procs s)[i := Awaiting framePath]\<rparr>)"
| leave: "i < length (procs s) \<Longrightarrow> procs s ! i = AtLoop \<Longrightarrow> queue s = [] \<Longrightarrow>
          pool_step tesseract lng s (s\<lparr>procs := (procs s)[i := Left]\<rparr>)"
| store: "i < length (procs s) \<Longrightarrow> procs s ! i = Awaiting framePath \<Longrightarrow>
          pool_step tesseract lng s
            (s\<lparr>results := (results s)(framePath \<mapsto> ocrFrame tesseract framePath lng),
               procs := (procs s)[i := AtLoop]\<rparr>)"

definition pool_init :: "string list \<Rightarrow> int \<Rightarrow> pool" where
  "pool_init frms workers =
     \<lparr>queue = frms, results = Map.empty,
      procs = replicate (nat (min workers (int (length frms)))) AtLoop\<rparr>"

text \<open>\<^verbatim>\<open>Promise.all(workerPromises)\<close> resolves when every worker has left its loop.\<close>

definition pool_done :: "pool \<Rightarrow> bool" where
  "pool_done s = list_all (\<lambda>w. w = Left) (procs s)"

text \<open>
  The \<^verbatim>\<open>Map\<close> that \<^verbatim>\<open>ocrAllFrames\<close> resolves to, as a function of its arguments: what every
  complete run of the pool leaves in \<open>results\<close> (lemma \<open>pool_result\<close>).
\<close>

definition ocrAllFrames :: "tesseract_cli \<Rightarrow> string list \<Rightarrow> string \<Rightarrow> int \<Rightarrow> (string \<rightharpoonup> string)" where
  "ocrAllFrames tesseract frms lng workers =
     (if nat (min workers (int (length frms))) = 0 then Map.empty
      else map_of (map (\<lambda>framePath. (framePath, ocrFrame tesseract framePath lng)) frms))"

section \<open>The pipeline (frameExtractor.ts, index.ts)\<close>

record CachedOcr =
  c_frames :: "string list"
  c_texts :: "string list"

text \<open>
  What the pipeline asks of Node, of the file system and of the external programs. A call
  that can fail gives \<open>Inl\<close> or \<open>Some\<close> of the error.
  \<^item> \<open>path_basename p ext\<close> is \<^verbatim>\<open>path.basename(p, ext)\<close>, and \<^verbatim>\<open>path.basename(p)\<close> when \<open>ext\<close>
    is empty;
  \<^item> \<open>ffprobe p\<close> is the frame rate that \<^verbatim>\<open>getVideoFps\<close> reads in its \<^verbatim>\<open>try\<close> block, or the
    failure of any step there;
  \<^item> \<open>read_ocr_cache p\<close> is the record parsed from the file \<open>p\<close>, \<open>None\<close> when the file is
    missing or does not parse; \<open>fs_stat p\<close> says whether \<open>p\<close> exists;
  \<^item> \<open>fs_readdir d\<close> lists \<open>d\<close> after ffmpeg has run;
  \<^item> \<open>Math_log\<close> is \<^verbatim>\<open>Math.log\<close> on the positive doubles.
\<close>

record env =
  path_resolve :: "string \<Rightarrow> string"
  path_extname :: "string \<Rightarrow> string"
  path_basename :: "string \<Rightarrow> string \<Rightarrow> string"
  path_dirname :: "string \<Rightarrow> string"
  path_join :: "string \<Rightarrow> string \<Rightarrow> string"
  CACHE_DIR :: string
  fs_mkdir :: "string \<Rightarrow> error option"
  fs_stat :: "string \<Rightarrow> bool"
  fs_readdir :: "string \<Rightarrow> error + string list"
  fs_writeFile :: "string \<Rightarrow> CachedOcr \<Rightarrow> error option"
  fs_copyFile :: "string \<Rightarrow> string \<Rightarrow> error option"
  read_ocr_cache :: "string \<Rightarrow> CachedOcr option"
  sha256_file :: "string \<Rightarrow> error + string"
  ffprobe :: "string \<Rightarrow> error + real"
  ffmpeg :: "string \<Rightarrow> string \<Rightarrow> error option"
  tesseract :: tesseract_cli
  kmeans :: kmeans_lib
  dbscan_run :: dbscan_lib
  Math_log :: "real \<Rightarrow> real"

definition getVideoFps :: "env \<Rightarrow> string \<Rightarrow> real" where
  "getVideoFps e videoPath = (case ffprobe e videoPath of Inr r \<Rightarrow> r | Inl err \<Rightarrow> 30)"

definition startsWith :: "string \<Rightarrow> string \<Rightarrow> bool" where
  "startsWith s p = (take (length p) s = p)"

definition endsWith :: "string \<Rightarrow> string \<Rightarrow> bool" where
  "endsWith s p = (length p \<le> length s \<and> drop (length s - length p) s = p)"

definition extractFrames :: "env \<Rightarrow> string \<Rightarrow> string \<Rightarrow> error + string list" where
  "extractFrames e videoPath outDir =
     (let framesDir = path_join e outDir ''frames''
      in case fs_mkdir e framesDir of Some err \<Rightarrow> Inl err
         | None \<Rightarrow>
            (case ffmpeg e videoPath (path_join e framesDir ''frame_%06d.jpg'') of Some err \<Rightarrow> Inl err
             | None \<Rightarrow>
                (case fs_readdir e framesDir of Inl err \<Rightarrow> Inl err
                 | Inr files \<Rightarrow>
                     Inr (map (path_join e framesDir)
                            (sort (filter (\<lambda>f. startsWith f ''frame_'' \<and> endsWith f ''.jpg'') files))))))"

definition getCacheDir :: "env \<Rightarrow> string \<Rightarrow> string" where
  "getCacheDir e videoHash = path_join e (CACHE_DIR e) videoHash"

definition loadCache :: "env \<Rightarrow> string \<Rightarrow> CachedOcr option" where
  "loadCache e videoHash =
     (let ocrCachePath = path_join e (getCacheDir e videoHash) ''ocr_cache.json''
      in case read_ocr_cache e ocrCachePath of None \<Rightarrow> None
         | Some cached \<Rightarrow> if list_all (fs_stat e) (c_frames cached) then Some cached else None)"

definition saveCache :: "env \<Rightarrow> string \<Rightarrow> string list \<Rightarrow> string list \<Rightarrow> error option" where
  "saveCache e videoHash frms txts =
     (let cacheDir = getCacheDir e videoHash
      in case fs_mkdir e cacheDir of Some err \<Rightarrow> Some err
         | None \<Rightarrow> fs_writeFile e (path_join e cacheDir ''ocr_cache.json'')
                     \<lparr>c_frames = frms, c_texts = txts\<rparr>)"

text \<open>\<^verbatim>\<open>name.replace("frame_", "")\<close>: the first occurrence of the pattern is removed.\<close>

fun remove_first :: "string \<Rightarrow> string \<Rightarrow> string" where
  "remove_first pat [] = []"
| "remove_first pat (c # cs) =
     (if take (length pat) (c # cs) = pat then drop (length pat) (c # cs)
      else c # remove_first pat cs)"

definition digit_value :: "char \<Rightarrow> nat option" where
  "digit_value = map_of (zip ''0123456789'' [0, 1, 2, 3, 4, 5, 6, 7, 8, 9])"

text \<open>
  \<^verbatim>\<open>parseInt(s, 10)\<close>: leading white space and one sign are skipped, the longest run of digits
  is read; with no digit the result is \<^verbatim>\<open>NaN\<close>, which is \<open>None\<close>.
\<close>

definition parseInt10 :: "string \<Rightarrow> int option" where
  "parseInt10 s =
     (let s1 = dropWhile is_space s;
          neg = (take 1 s1 = ''-'');
          s2 = (if take 1 s1 = ''-'' \<or> take 1 s1 = ''+'' then drop 1 s1 else s1);
          ds = takeWhile (\<lambda>c. digit_value c \<noteq> None) s2
      in if ds = [] then None
         else Some ((if neg then - 1 else 1)
                    * int (foldl (\<lambda>acc c. 10 * acc + the (digit_value c)) 0 ds)))"

definition getFrameNumber :: "env \<Rightarrow> string \<Rightarrow> int option" where
  "getFrameNumber e framePath =
     (let ext = path_extname e framePath;
          name = path_basename e framePath ext;
          numStr = remove_first ''frame_'' name
      in parseInt10 numStr)"

text \<open>
  ``Map back to full frame set'': \<^verbatim>\<open>labels[originalIndices[i]] = clusterLabels[i]\<close> for every
  \<open>i\<close> below \<^verbatim>\<open>clusterLabels.length\<close>, on an array of \<open>n\<close> labels \<open>-1\<close>. The clusterers
  return one label for each row, so the two lists have one length. The indices are
  positions of \<open>texts\<close>, which is as long as \<open>frames\<close>: every write is inside the array.
\<close>

definition assign_labels :: "nat \<Rightarrow> nat list \<Rightarrow> int list \<Rightarrow> int list" where
  "assign_labels n origIdx clusterLabels =
     fold (\<lambda>(idx, l) labels. labels[idx := l]) (zip origIdx clusterLabels) (replicate n (- 1))"

definition autoK :: "nat \<Rightarrow> int" where
  "autoK n = max 1 (min (round (sqrt (real n / 2))) 50)"

definition frame_labels :: "env \<Rightarrow> int option \<Rightarrow> real option \<Rightarrow> string list \<Rightarrow> string list \<Rightarrow> int list" where
  "frame_labels e nClusters dbscanEps frms txts =
     (let r = buildTfidfMatrix (Math_log e) txts
      in if length (matrix r) = 0 then replicate (length frms) 0
         else
           (case dbscanEps of
              Some eps \<Rightarrow>
                assign_labels (length frms) (originalIndices r) (clusterDBSCAN (dbscan_run e) (matrix r) eps 2)
            | None \<Rightarrow>
               (case nClusters of
                  Some k \<Rightarrow>
                    (let effectiveClusters = min k (int (length (matrix r)))
                     in assign_labels (length frms) (originalIndices r)
                          (clusterKMeans (kmeans e) (matrix r) effectiveClusters))
                | None \<Rightarrow>
                    assign_labels (length frms) (originalIndices r)
                      (clusterKMeans (kmeans e) (matrix r) (autoK (length (matrix r)))))))"

text \<open>
  \<open>clusterMap\<close> is a \<^verbatim>\<open>Map<number, number[]>\<close> in insertion order; \<open>cluster_push m label i\<close>
  creates the entry of \<open>label\<close> when it is missing and appends \<open>i\<close> to it.
\<close>

fun cluster_push :: "(int \<times> nat list) list \<Rightarrow> int \<Rightarrow> nat \<Rightarrow> (int \<times> nat list) list" where
  "cluster_push [] label i = [(label, [i])]"
| "cluster_push ((l, idxs) # m) label i =
     (if l = label then (l, idxs @ [i]) # m else (l, idxs) # cluster_push m label i)"

definition clusterMap :: "int list \<Rightarrow> (int \<times> nat list) list" where
  "clusterMap labels = fold (\<lambda>i m. cluster_push m (labels ! i) i) [0..<length labels] []"

text \<open>
  \<^verbatim>\<open>Array.prototype.sort\<close> with a comparator is stable: an insertion sort, where \<open>gt a b\<close>
  says that the comparator is positive on \<open>(a, b)\<close>. A difference with \<^verbatim>\<open>NaN\<close> is \<^verbatim>\<open>NaN\<close>,
  which is not positive; the order of such elements is left to the engine in JavaScript,
  and no property below depends on it.
\<close>

fun insert_by :: "('a \<Rightarrow> 'a \<Rightarrow> bool) \<Rightarrow> 'a \<Rightarrow> 'a list \<Rightarrow> 'a list" where
  "insert_by gt x [] = [x]"
| "insert_by gt x (y # ys) = (if gt x y then y # insert_by gt x ys else x # y # ys)"

definition js_sort :: "('a \<Rightarrow> 'a \<Rightarrow> bool) \<Rightarrow> 'a list \<Rightarrow> 'a list" where
  "js_sort gt xs = foldr (insert_by gt) xs []"

definition diff_positive :: "real option \<Rightarrow> real option \<Rightarrow> bool" where
  "diff_positive a b = (case (a, b) of (Some x, Some y) \<Rightarrow> x - y > 0 | _ \<Rightarrow> False)"

definition avgFrame :: "env \<Rightarrow> string list \<Rightarrow> nat list \<Rightarrow> real option" where
  "avgFrame e frms indices =
     (let nums = map (\<lambda>i. getFrameNumber e (frms ! i)) indices
      in if None \<in> set nums then None
         else Some (real_of_int (sum_list (map the nums)) / real (length indices)))"

definition sortedClusters :: "env \<Rightarrow> string list \<Rightarrow> int list \<Rightarrow> (int \<times> nat list \<times> real option) list" where
  "sortedClusters e frms labels =
     js_sort (\<lambda>a b. diff_positive (snd (snd a)) (snd (snd b)))
       (map (\<lambda>(label, indices). (label, indices, avgFrame e frms indices)) (clusterMap labels))"

record FrameTimestamp =
  frameNumber :: "int option"
  timestamp :: string
  fileName :: string

record GroupInfo =
  groupIndex :: nat
  groupName :: string
  representativeFrame :: string
  frameCount :: nat
  timeRange :: "string \<times> string"
  frames :: "FrameTimestamp list"

definition frameTimestamps :: "env \<Rightarrow> string list \<Rightarrow> nat list \<Rightarrow> FrameTimestamp list" where
  "frameTimestamps e frms indices =
     js_sort (\<lambda>a b. diff_positive (map_option real_of_int (frameNumber a))
                                  (map_option real_of_int (frameNumber b)))
       (map (\<lambda>i. let frameNum = getFrameNumber e (frms ! i)
                  in \<lparr>frameNumber = frameNum, timestamp = frameNumberToTimestamp frameNum,
                      fileName = path_basename e (frms ! i) []\<rparr>) indices)"

text \<open>One turn of the loop over the sorted clusters; \<open>gi\<close> counts from 0.\<close>

definition make_group :: "env \<Rightarrow> string list \<Rightarrow> string list \<Rightarrow> string \<Rightarrow> nat \<Rightarrow> nat list \<Rightarrow> error + GroupInfo" where
  "make_group e frms txts representativeDir gi indices =
     (let grpIndex = gi + 1;
          displayName = ''Group '' @ String_nat grpIndex;
          grpName = ''group_'' @ padStart0 2 (String_nat grpIndex);
          groupFramePaths = map (\<lambda>i. frms ! i) indices;
          groupTexts = map (\<lambda>i. txts ! i) indices
      in case selectRepresentative (Math_log e) groupFramePaths groupTexts of Inl err \<Rightarrow> Inl err
         | Inr representative \<Rightarrow>
            (let ext = path_extname e representative;
                 reprDest = path_join e representativeDir (grpName @ ext)
             in case fs_copyFile e representative reprDest of Some err \<Rightarrow> Inl err
                | None \<Rightarrow>
                   (let fts = frameTimestamps e frms indices
                    in Inr \<lparr>groupIndex = grpIndex, groupName = displayName,
                            representativeFrame = reprDest, frameCount = length indices,
                            timeRange = (if fts = [] then (''00:00'', ''00:00'')
                                         else (timestamp (hd fts), timestamp (last fts))),
                            frames = fts\<rparr>)))"

fun build_groups :: "env \<Rightarrow> string list \<Rightarrow> string list \<Rightarrow> string \<Rightarrow> nat \<Rightarrow> nat list list \<Rightarrow> error + GroupInfo list" where
  "build_groups e frms txts representativeDir gi [] = Inr []"
| "build_groups e frms txts representativeDir gi (indices # rest) =
     (case make_group e frms txts representativeDir gi indices of Inl err \<Rightarrow> Inl err
      | Inr g \<Rightarrow>
         (case build_groups e frms txts representativeDir (gi + 1) rest of Inl err \<Rightarrow> Inl err
          | Inr gs \<Rightarrow> Inr (g # gs)))"

record VideoAnalyzerOptions =
  videoPath :: string
  nClusters :: "int option"
  dbscanEps :: "real option"
  lang :: "string option"
  workers :: "int option"

record VideoAnalyzerResult =
  r_videoPath :: string
  outputDir :: string
  fps :: real
  totalFrames :: nat
  groups :: "GroupInfo list"
  representativeFramePaths :: "string list"

text \<open>
  The frames and their texts, from the cache or from extraction and OCR; \<open>None\<close> when the
  extraction gave no frame.
\<close>

definition acquire :: "env \<Rightarrow> string \<Rightarrow> string \<Rightarrow> string \<Rightarrow> int \<Rightarrow> error + (string list \<times> string list) option" where
  "acquire e resolvedVideoPath videoHash lng wrk =
     (case loadCache e videoHash of
        Some cached \<Rightarrow> Inr (Some (c_frames cached, c_texts cached))
      | None \<Rightarrow>
         (case extractFrames e resolvedVideoPath (getCacheDir e videoHash) of Inl err \<Rightarrow> Inl err
          | Inr frms \<Rightarrow>
             if length frms = 0 then Inr None
             else
               (let ocrResults = ocrAllFrames (tesseract e) frms lng wrk;
                    txts = map (\<lambda>f. case ocrResults f of Some t \<Rightarrow> t | None \<Rightarrow> []) frms
                in case saveCache e videoHash frms txts of Some err \<Rightarrow> Inl err
                   | None \<Rightarrow> Inr (Some (frms, txts)))))"

text \<open>Steps 3 and 4: from the frames and texts to the groups.\<close>

definition group_frames :: "env \<Rightarrow> int option \<Rightarrow> real option \<Rightarrow> string \<Rightarrow> string list \<Rightarrow> string list \<Rightarrow> error + GroupInfo list" where
  "group_frames e nCl eps outDir frms txts =
     (let labels = frame_labels e nCl eps frms txts;
          sorted = sortedClusters e frms labels;
          representativeDir = path_join e outDir ''representative_frames''
      in case fs_mkdir e representativeDir of Some err \<Rightarrow> Inl err
         | None \<Rightarrow> build_groups e frms txts representativeDir 0 (map (\<lambda>c. fst (snd c)) sorted))"

text \<open>
  \<^verbatim>\<open>analyzeVideo\<close> up to the point where the frames and texts are known: the resolved video
  path, the output directory, the frame rate and what \<open>acquire\<close> gave.
\<close>

definition prepare_run ::
  "env \<Rightarrow> VideoAnalyzerOptions \<Rightarrow> error + (string \<times> string \<times> real \<times> (string list \<times> string list) option)" where
  "prepare_run e options =
     (let lng = (case lang options of None \<Rightarrow> ''eng'' | Some l \<Rightarrow> l);
          wrk = (case workers options of None \<Rightarrow> 8 | Some w \<Rightarrow> w);
          resolvedVideoPath = path_resolve e (videoPath options);
          videoName = path_basename e resolvedVideoPath (path_extname e resolvedVideoPath);
          outDir = path_join e (path_dirname e resolvedVideoPath) videoName
      in case fs_mkdir e outDir of Some err \<Rightarrow> Inl err
         | None \<Rightarrow>
            (let rate = getVideoFps e resolvedVideoPath
             in case sha256_file e resolvedVideoPath of Inl err \<Rightarrow> Inl err
                | Inr videoHash \<Rightarrow>
                   (case acquire e resolvedVideoPath videoHash lng wrk of Inl err \<Rightarrow> Inl err
                    | Inr acquired \<Rightarrow> Inr (resolvedVideoPath, outDir, rate, acquired))))"

definition analyzeVideo :: "env \<Rightarrow> VideoAnalyzerOptions \<Rightarrow> error + VideoAnalyzerResult" where
  "analyzeVideo e options =
     (case prepare_run e options of Inl err \<Rightarrow> Inl err
      | Inr (resolvedVideoPath, outDir, rate, None) \<Rightarrow>
          Inr \<lparr>r_videoPath = resolvedVideoPath, outputDir = outDir, fps = rate,
               totalFrames = 0, groups = [], representativeFramePaths = []\<rparr>
      | Inr (resolvedVideoPath, outDir, rate, Some (frms, txts)) \<Rightarrow>
         (case group_frames e (nClusters options) (dbscanEps options) outDir frms txts of
            Inl err \<Rightarrow> Inl err
          | Inr gs \<Rightarrow>
              Inr \<lparr>r_videoPath = resolvedVideoPath, outputDir = outDir, fps = rate,
                   totalFrames = length frms, groups = gs,
                   representativeFramePaths = map representativeFrame gs\<rparr>))"

text \<open>The file names of the frames of a group, in the order of the group.\<close>

definition group_files :: "GroupInfo \<Rightarrow> string list" where
  "group_files g = map fileName (frames g)"

text \<open>
  The rule of selection in the words of the specification: an explicit \<open>eps\<close> selects DBSCAN,
  else an explicit \<open>k\<close> selects K-means with \<open>k\<close> clusters, else K-means runs with
  \<open>clamp (round (sqrt (nVectors / 2))) 1 50\<close> clusters.
\<close>

datatype strategy = DBSCAN real | KMeans int

definition clamp :: "int \<Rightarrow> int \<Rightarrow> int \<Rightarrow> int" where
  "clamp x lo hi = (if x < lo then lo else if hi < x then hi else x)"

definition spec_strategy :: "int option \<Rightarrow> real option \<Rightarrow> nat \<Rightarrow> strategy" where
  "spec_strategy nCl eps nVectors =
     (case eps of Some r \<Rightarrow> DBSCAN r
      | None \<Rightarrow>
         (case nCl of Some k \<Rightarrow> KMeans k
          | None \<Rightarrow> KMeans (clamp (round (sqrt (real nVectors / 2))) 1 50)))"

fun run_strategy :: "env \<Rightarrow> real list list \<Rightarrow> strategy \<Rightarrow> int list" where
  "run_strategy e m (DBSCAN r) = clusterDBSCAN (dbscan_run e) m r 2"
| "run_strategy e m (KMeans k) = clusterKMeans (kmeans e) m k"

text \<open>
  The document frequency in the words of the glossary: the number of documents in which a
  term appears at least once.
\<close>

definition doc_freq :: "string list list \<Rightarrow> string \<Rightarrow> nat" where
  "doc_freq docs t = length (filter (\<lambda>tokens. t \<in> set tokens) docs)"

text \<open>What a counting map holds for a key, 0 when the key is missing.\<close>

definition count_of :: "(string \<times> nat) list \<Rightarrow> string \<Rightarrow> nat" where
  "count_of m k = (case map_of m k of None \<Rightarrow> 0 | Some v \<Rightarrow> v)"


text \<open>
  What a state of the pool must satisfy when it is reached from \<open>pool_init frms workers\<close>:
  the number of workers is fixed; every stored text is the text of \<open>ocrFrame\<close> for a frame
  of \<open>frms\<close>; every frame of \<open>frms\<close> is stored, queued or awaited; and once a worker has
  left its loop the queue is empty.
\<close>

definition pool_inv :: "tesseract_cli \<Rightarrow> string \<Rightarrow> string list \<Rightarrow> int \<Rightarrow> pool \<Rightarrow> bool" where
  "pool_inv tess lng frms wrk s =
     (length (procs s) = nat (min wrk (int (length frms)))
      \<and> (\<forall>f v. results s f = Some v \<longrightarrow> f \<in> set frms \<and> v = ocrFrame tess f lng)
      \<and> (\<forall>f \<in> set frms. f \<in> dom (results s) \<or> f \<in> set (queue s) \<or> Awaiting f \<in> set (procs s))
      \<and> (Left \<in> set (procs s) \<longrightarrow> queue s = [])
      \<and> set (queue s) \<subseteq> set frms
      \<and> (\<forall>f. Awaiting f \<in> set (procs s) \<longrightarrow> f \<in> set frms))"

text \<open>The steps that a state can still take are bounded by this number.\<close>

fun worker_weight :: "worker \<Rightarrow> nat" where
  "worker_weight AtLoop = 1"
| "worker_weight (Awaiting f) = 2"
| "worker_weight Left = 0"

definition pool_measure :: "pool \<Rightarrow> nat" where
  "pool_measure s = 3 * length (queue s) + sum_list (map worker_weight (procs s))"

section \<open>An environment for the examples\<close>

text \<open>
  The examples run the pipeline in an environment where every call succeeds. Its path
  functions treat a path as POSIX does, on paths without a trailing slash. The cache
  record, the listing of the frames directory and the answer of DBSCAN are parameters. Its
  \<^verbatim>\<open>Math.log\<close> gives the double nearest to the logarithm.
\<close>

definition Math_log_nearest :: "real \<Rightarrow> real" where
  "Math_log_nearest x = double_round (ln x)"

definition posix_basename :: "string \<Rightarrow> string \<Rightarrow> string" where
  "posix_basename p ext =
     (let b = rev (takeWhile (\<lambda>c. c \<noteq> CHR ''/'') (rev p))
      in if ext \<noteq> [] \<and> b \<noteq> ext \<and> endsWith b ext then take (length b - length ext) b else b)"

definition posix_extname :: "string \<Rightarrow> string" where
  "posix_extname p =
     (let b = posix_basename p []
      in if CHR ''.'' \<in> set (drop 1 b) then CHR ''.'' # rev (takeWhile (\<lambda>c. c \<noteq> CHR ''.'') (rev b)) else [])"

definition posix_dirname :: "string \<Rightarrow> string" where
  "posix_dirname p = rev (drop 1 (dropWhile (\<lambda>c. c \<noteq> CHR ''/'') (rev p)))"

definition example_env :: "CachedOcr option \<Rightarrow> string list \<Rightarrow> nat list list \<Rightarrow> env" where
  "example_env cached files clusters =
     \<lparr>path_resolve = (\<lambda>p. p), path_extname = posix_extname, path_basename = posix_basename,
      path_dirname = posix_dirname, path_join = (\<lambda>a b. a @ ''/'' @ b),
      CACHE_DIR = ''/work/video-cache'',
      fs_mkdir = (\<lambda>p. None), fs_stat = (\<lambda>p. True), fs_readdir = (\<lambda>d. Inr files),
      fs_writeFile = (\<lambda>p c. None), fs_copyFile = (\<lambda>a b. None),
      read_ocr_cache = (\<lambda>p. cached), sha256_file = (\<lambda>p. Inr ''ab12''),
      ffprobe = (\<lambda>p. Inr 30), ffmpeg = (\<lambda>a b. None),
      tesseract = (\<lambda>f l. Inr ''slide one''),
      kmeans = (\<lambda>data k. replicate (length data) 0),
      dbscan_run = (\<lambda>data eps minPts dist. clusters),
      Math_log = Math_log_nearest\<rparr>"

definition two_frames :: CachedOcr where
  "two_frames = \<lparr>c_frames = [''/work/video-cache/ab12/frames/frame_000001.jpg'',
                              ''/work/video-cache/ab12/frames/frame_000002.jpg''],
                  c_texts = ['''', ''hello world'']\<rparr>"

definition one_cluster :: VideoAnalyzerOptions where
  "one_cluster = \<lparr>videoPath = ''/in/talk.mp4'', nClusters = Some 1, dbscanEps = None,
                   lang = None, workers = None\<rparr>"

definition two_frames_result :: VideoAnalyzerResult where
  "two_frames_result =
     \<lparr>r_videoPath = ''/in/talk.mp4'', outputDir = ''/in/talk'', fps = 30, totalFrames = 2,
      groups =
        [\<lparr>groupIndex = 1, groupName = ''Group 1'',
          representativeFrame = ''/in/talk/representative_frames/group_01.jpg'', frameCount = 1,
          timeRange = (''00:00.0'', ''00:00.0''),
          frames = [\<lparr>frameNumber = Some 1, timestamp = ''00:00.0'', fileName = ''frame_000001.jpg''\<rparr>]\<rparr>,
         \<lparr>groupIndex = 2, groupName = ''Group 2'',
          representativeFrame = ''/in/talk/representative_frames/group_02.jpg'', frameCount = 1,
          timeRange = (''00:00.1'', ''00:00.1''),
          frames = [\<lparr>frameNumber = Some 2, timestamp = ''00:00.1'', fileName = ''frame_000002.jpg''\<rparr>]\<rparr>],
      representativeFramePaths = [''/in/talk/representative_frames/group_01.jpg'',
                                  ''/in/talk/representative_frames/group_02.jpg'']\<rparr>"

definition three_frames :: CachedOcr where
  "three_frames = \<lparr>c_frames = [''/work/video-cache/ab12/frames/frame_000001.jpg'',
                                ''/work/video-cache/ab12/frames/frame_000002.jpg'',
                                ''/work/video-cache/ab12/frames/frame_000003.jpg''],
                    c_texts = [''alpha'', ''alpha'', ''beta'']\<rparr>"

definition density_half :: VideoAnalyzerOptions where
  "density_half = \<lparr>videoPath = ''/in/talk.mp4'', nClusters = None, dbscanEps = Some (1 / 2),
                    lang = None, workers = None\<rparr>"

definition three_frames_result :: VideoAnalyzerResult where
  "three_frames_result =
     \<lparr>r_videoPath = ''/in/talk.mp4'', outputDir = ''/in/talk'', fps = 30, totalFrames = 3,
      groups =
        [\<lparr>groupIndex = 1, groupName = ''Group 1'',
          representativeFrame = ''/in/talk/representative_frames/group_01.jpg'', frameCount = 2,
          timeRange = (''00:00.0'', ''00:00.1''),
          frames = [\<lparr>frameNumber = Some 1, timestamp = ''00:00.0'', fileName = ''frame_000001.jpg''\<rparr>,
                    \<lparr>frameNumber = Some 2, timestamp = ''00:00.1'', fileName = ''frame_000002.jpg''\<rparr>]\<rparr>,
         \<lparr>groupIndex = 2, groupName = ''Group 2'',
          representativeFrame = ''/in/talk/representative_frames/group_02.jpg'', frameCount = 1,
          timeRange = (''00:00.1'', ''00:00.1''),
          frames = [\<lparr>frameNumber = Some 3, timestamp = ''00:00.1'', fileName = ''frame_000003.jpg''\<rparr>]\<rparr>],
      representativeFramePaths = [''/in/talk/representative_frames/group_01.jpg'',
                                  ''/in/talk/representative_frames/group_02.jpg'']\<rparr>"

section \<open>Properties of the double arithmetic\<close>

lemma round_even_near: "\<bar>of_int (round_even m) - m\<bar> \<le> 1 / 2"
  unfolding round_even_def Let_def by (auto; linarith)

lemma round_even_int: "\<bar>m - of_int k\<bar> < 1 / 2 \<Longrightarrow> round_even m = k"
proof -
  assume a: "\<bar>m - of_int k\<bar> < 1 / 2"
  have n: "\<bar>of_int (round_even m) - m\<bar> \<le> 1 / 2" by (rule round_even_near)
  from a n have "\<bar>(of_int (round_even m) :: real) - of_int k\<bar> < 1" by linarith
  hence "\<bar>round_even m - k\<bar> < 1"
    by (metis of_int_abs of_int_diff of_int_less_1_iff)
  thus ?thesis by linarith
qed

lemma double_round_0: "double_round 0 = 0"
  by (simp add: double_round_def)


text \<open>How a positive number is rounded, from its binade and the nearest significand.\<close>

lemma double_round_pos_eq:
  assumes "0 < x" and "2 powr (of_int e) \<le> x" and "x < 2 powr (of_int e + 1)"
    and "\<bar>x / 2 powr (of_int e - 52) - of_int k\<bar> < 1 / 2"
  shows "double_round x = of_int k * 2 powr (of_int e - 52)"
proof -
  have fl: "\<lfloor>log 2 x\<rfloor> = e"
    using assms(1-3) by (simp add: floor_log_eq_powr_iff)
  have "round_even (x / 2 powr (of_int e - 52)) = k"
    using assms(4) by (rule round_even_int)
  thus ?thesis using assms(1) fl by (simp add: double_round_def Let_def)
qed

text \<open>The relative error of one rounding is at most \<open>2^-53\<close>.\<close>

lemma double_round_bounds:
  assumes "0 \<le> x"
  shows "(1 - 1 / 2 ^ 53) * x \<le> double_round x \<and> double_round x \<le> (1 + 1 / 2 ^ 53) * x"
proof (cases "x = 0")
  case True thus ?thesis by (simp add: double_round_def)
next
  case False
  hence pos: "0 < x" using assms by simp
  define e where "e = \<lfloor>log 2 x\<rfloor>"
  define ulp :: real where "ulp = 2 powr (of_int e - 52)"
  have ulp_pos: "0 < ulp" by (simp add: ulp_def)
  have "2 powr (of_int e) \<le> x"
    using pos floor_log_eq_powr_iff [of x 2 e] e_def by simp
  moreover have "2 powr (of_int e) = 2 ^ 53 * (ulp / 2)"
  proof -
    have "ulp = 2 powr (of_int e) / 2 powr 52"
      unfolding ulp_def by (rule powr_diff)
    thus ?thesis by simp
  qed
  ultimately have half: "ulp / 2 \<le> x / 2 ^ 53" by simp
  have dr: "double_round x = of_int (round_even (x / ulp)) * ulp"
    using pos by (simp add: double_round_def e_def ulp_def Let_def)
  have "\<bar>of_int (round_even (x / ulp)) - x / ulp\<bar> \<le> 1 / 2" by (rule round_even_near)
  hence "\<bar>of_int (round_even (x / ulp)) - x / ulp\<bar> * ulp \<le> 1 / 2 * ulp"
    using ulp_pos by (simp only: mult_le_cancel_right) simp
  hence "\<bar>(of_int (round_even (x / ulp)) - x / ulp) * ulp\<bar> \<le> ulp / 2"
    using ulp_pos by (simp add: abs_mult)
  hence "\<bar>double_round x - x\<bar> \<le> ulp / 2"
    using ulp_pos by (simp add: dr algebra_simps)
  with half have "\<bar>double_round x - x\<bar> \<le> x / 2 ^ 53" by linarith
  hence "x - x / 2 ^ 53 \<le> double_round x \<and> double_round x \<le> x + x / 2 ^ 53"
    by linarith
  thus ?thesis by (simp add: algebra_simps)
qed


lemma double_round_pos: "0 < x \<Longrightarrow> 0 < double_round x"
proof -
  assume a: "0 < x"
  have "0 < (1 - 1 / 2 ^ 53) * x" using a by simp
  thus ?thesis using double_round_bounds [of x] a by linarith
qed

lemma double_round_1: "double_round 1 = 1"
  using double_round_pos_eq [of 1 0 "2 ^ 52"] powr_realpow [of "2::real" 52]
  by (simp add: powr_minus)

lemma double_round_2: "double_round 2 = 2"
  using double_round_pos_eq [of 2 1 "2 ^ 52"] powr_realpow [of "2::real" 51]
  by (simp add: powr_minus)

lemma double_round_3: "double_round 3 = 3"
  using double_round_pos_eq [of 3 1 "3 * 2 ^ 51"] powr_realpow [of "2::real" 51]
  by (simp add: powr_minus)

lemmas double_small = fadd_def fsub_def fmul_def fdiv_def fsqrt_def
  double_round_0 double_round_1 double_round_2 double_round_3

lemma Math_log_nearest_1: "Math_log_nearest 1 = 0"
  by (simp add: Math_log_nearest_def double_round_0)

section \<open>Properties of the timestamps\<close>

lemma String_nat_digit: "d < 10 \<Longrightarrow> String_nat d = [digit_char d]"
  by (simp add: String_nat.simps)

lemma padStart0_secs:
  "padStart0 4 (a @ CHR ''.'' # [c]) = padStart0 2 a @ CHR ''.'' # [c]"
  by (simp add: padStart0_def)

lemma floor_nat_div: "\<lfloor>real j / real k\<rfloor> = int (j div k)"
  by (metis floor_divide_of_nat_eq of_int_of_nat_eq)

lemma js_rem_nat: "k > 0 \<Longrightarrow> js_rem (real j / 15) (real k) = real (j mod (15 * k)) / 15"
proof -
  assume k: "k > 0"
  have "real j / 15 / real k = real j / real (15 * k)" by simp
  then have f: "\<lfloor>real j / 15 / real k\<rfloor> = int (j div (15 * k))"
    using floor_nat_div[of j "15 * k"] by simp
  have "real j = real (15 * k * (j div (15 * k)) + j mod (15 * k))" by simp
  then have "real j = 15 * real k * real (j div (15 * k)) + real (j mod (15 * k))"
    by (simp only: of_nat_add of_nat_mult of_nat_numeral)
  then show ?thesis unfolding js_rem_def f by (simp add: field_simps)
qed

lemma mod_div_swap: "(j::nat) mod (a * b) div a = j div a mod b"
  by (cases "a = 0") (simp_all add: mod_mult2_eq)

lemma tenths_digit: "r < 15 \<Longrightarrow> (4 * r + 3) div 6 \<le> (9::nat)" by simp

lemma toFixed1_fifteenths:
  assumes "m < 900"
  shows "toFixed1 (real m / 15) = String_nat (m div 15) @ ''.'' @ String_nat ((4 * (m mod 15) + 3) div 6)"
proof -
  have "real m / 15 * 10 + 1 / 2 = real (4 * m + 3) / real 6" by simp
  then have "\<lfloor>real m / 15 * 10 + 1 / 2\<rfloor> = int ((4 * m + 3) div 6)"
    by (simp only: floor_nat_div)
  then have n: "nat \<lfloor>real m / 15 * 10 + 1 / 2\<rfloor> = (4 * m + 3) div 6" by simp
  have a: "(4 * m + 3) div 6 div 10 = m div 15" by (simp add: div_mult2_eq[symmetric])
  have b: "(4 * m + 3) div 6 mod 10 = (4 * (m mod 15) + 3) div 6"
  proof -
    have "m = 15 * (m div 15) + m mod 15" by simp
    then have "4 * m + 3 = (4 * (m mod 15) + 3) + 6 * (10 * (m div 15))" by linarith
    then have "(4 * m + 3) div 6 = (4 * (m mod 15) + 3 + 6 * (10 * (m div 15))) div 6"
      by (simp only:)
    also have "\<dots> = 10 * (m div 15) + (4 * (m mod 15) + 3) div 6"
      by (rule div_mult_self2) simp
    finally have "(4 * m + 3) div 6 = (4 * (m mod 15) + 3) div 6 + 10 * (m div 15)"
      by simp
    moreover have "(4 * (m mod 15) + 3) div 6 < 10" by simp
    ultimately show ?thesis by simp
  qed
  show ?thesis unfolding toFixed1_def Let_def n a b ..
qed


text \<open>
  Claim C9. For every positive frame ordinal \<open>N\<close> the timestamp string is the time
  \<open>(N - 1) / 15\<close> seconds: minutes and whole seconds, each padded with zeros to two digits,
  a point and one decimal digit, after an hours field when the time reaches one hour. The
  hours, minutes, seconds and tenth that it prints differ from \<open>(N - 1) / 15\<close> by at most one
  twentieth of a second. Ordinal 16 gives \<^verbatim>\<open>00:01.0\<close>.
\<close>

theorem frameNumberToTimestamp_ordinal:
  assumes "1 \<le> N"
  shows "let j = nat (N - 1); h = j div 54000; m = j div 900 mod 60; s = j div 15 mod 60;
             d = (4 * (j mod 15) + 3) div 6
         in frameNumberToTimestamp (Some N) =
              (if h > 0 then padStart0 2 (String_nat h) @ '':'' else [])
                @ padStart0 2 (String_nat m) @ '':'' @ padStart0 2 (String_nat s) @ ''.'' @ [digit_char d]
            \<and> d \<le> 9
            \<and> \<bar>real (3600 * h + 60 * m + s) + real d / 10 - (of_int N - 1) / 15\<bar> \<le> 1 / 20"
proof -
  define j where "j = nat (N - 1)"
  have N: "of_int N - 1 = real j" using assms by (simp add: j_def)
  have ts: "max 0 (real j / SAMPLE_FPS) = real j / 15"
    by (simp add: SAMPLE_FPS_def)
  have h: "nat \<lfloor>real j / 15 / 3600\<rfloor> = j div 54000"
    using floor_nat_div[of j 54000] by simp
  have r1: "js_rem (real j / 15) 3600 = real (j mod 54000) / 15"
    using js_rem_nat[of 3600 j] by simp
  have m: "nat \<lfloor>js_rem (real j / 15) 3600 / 60\<rfloor> = j div 900 mod 60"
  proof -
    have "js_rem (real j / 15) 3600 / 60 = real (j mod 54000) / real 900" by (simp add: r1)
    then have "\<lfloor>js_rem (real j / 15) 3600 / 60\<rfloor> = int (j mod 54000 div 900)"
      by (simp only: floor_nat_div)
    moreover have "j mod 54000 div 900 = j div 900 mod 60"
      using mod_div_swap[of j 900 60] by simp
    ultimately show ?thesis by simp
  qed
  have r2: "js_rem (real j / 15) 60 = real (j mod 900) / 15"
    using js_rem_nat[of 60 j] by simp
  have d9: "(4 * (j mod 15) + 3) div 6 \<le> 9" by (rule tenths_digit) simp
  have sec: "padStart0 4 (toFixed1 (js_rem (real j / 15) 60))
           = padStart0 2 (String_nat (j div 15 mod 60)) @ ''.'' @ [digit_char ((4 * (j mod 15) + 3) div 6)]"
  proof -
    have a: "j mod 900 div 15 = j div 15 mod 60"
      using mod_div_swap[of j 15 60] by simp
    have b: "j mod 900 mod 15 = j mod 15"
      by (rule mod_mod_cancel) simp
    have "toFixed1 (real (j mod 900) / 15)
        = String_nat (j div 15 mod 60) @ ''.'' @ String_nat ((4 * (j mod 15) + 3) div 6)"
      using toFixed1_fifteenths[of "j mod 900"] by (simp add: a b)
    moreover have "String_nat ((4 * (j mod 15) + 3) div 6) = [digit_char ((4 * (j mod 15) + 3) div 6)]"
      using d9 by (intro String_nat_digit) simp
    ultimately show ?thesis by (simp add: r2 padStart0_secs)
  qed
  have val: "\<bar>real (3600 * (j div 54000) + 60 * (j div 900 mod 60) + j div 15 mod 60)
              + real ((4 * (j mod 15) + 3) div 6) / 10 - real j / 15\<bar> \<le> 1 / 20"
  proof -
    have w: "3600 * (j div 54000) + 60 * (j div 900 mod 60) + j div 15 mod 60 = j div 15"
    proof -
      have d1: "j div 900 = j div 15 div 60" and d2: "j div 54000 = j div 15 div 3600"
        by (simp_all add: div_mult2_eq[symmetric])
      have "j div 15 mod 3600 = 60 * (j div 15 div 60 mod 60) + j div 15 mod 60"
        using mod_mult2_eq[of "j div 15" 60 60] by simp
      then show ?thesis unfolding d1 d2
        using div_mult_mod_eq[of "j div 15" 3600] by simp
    qed
    define q where "q = j div 15"
    define r where "r = j mod 15"
    define d where "d = (4 * r + 3) div 6"
    have "j = 15 * q + r" unfolding q_def r_def by simp
    then have jq: "real j = 15 * real q + real r" by simp
    have "6 * d \<le> 4 * r + 3" unfolding d_def by simp
    then have "real (6 * d) \<le> real (4 * r + 3)" by (rule of_nat_mono)
    then have lo': "6 * real d \<le> 4 * real r + 3" by simp
    have "4 * r + 3 < 6 * d + 6" unfolding d_def
      using mod_less_divisor[of 6 "4 * r + 3"] div_mult_mod_eq[of "4 * r + 3" 6]
      by linarith
    then have "real (4 * r + 3) < real (6 * d + 6)" by (simp only: of_nat_less_iff)
    then have hi': "4 * real r + 3 < 6 * real d + 6" by simp
    have "real q + real d / 10 - real j / 15 = (3 * real d - 2 * real r) / 30"
      unfolding jq by (simp add: field_simps)
    moreover have "\<bar>(3 * real d - 2 * real r) / 30\<bar> \<le> 1 / 20"
    proof (rule abs_leI)
      show "(3 * real d - 2 * real r) / 30 \<le> 1 / 20" using lo' by simp
      show "- ((3 * real d - 2 * real r) / 30) \<le> 1 / 20" using hi' by simp
    qed
    ultimately have "\<bar>real q + real d / 10 - real j / 15\<bar> \<le> 1 / 20"
      by (simp only:)
    then show ?thesis unfolding w q_def d_def r_def .
  qed
  have str: "frameNumberToTimestamp (Some N) =
      (if j div 54000 > 0 then padStart0 2 (String_nat (j div 54000)) @ '':'' else [])
        @ padStart0 2 (String_nat (j div 900 mod 60)) @ '':''
        @ padStart0 2 (String_nat (j div 15 mod 60)) @ ''.'' @ [digit_char ((4 * (j mod 15) + 3) div 6)]"
    unfolding Let_def frameNumberToTimestamp_def option.case N ts h m sec
    by (cases "0 < j div 54000") simp_all
  show ?thesis
    unfolding Let_def j_def[symmetric] N
    by (intro conjI str d9 val)
qed




lemma pad_eval: "padStart0 2 (String_nat 0) = ''00''" "padStart0 2 (String_nat 1) = ''01''" "digit_char 0 = CHR ''0''"
  by (simp_all add: padStart0_def String_nat_digit digit_char_def)


theorem frameNumberToTimestamp_ordinal_witness:
  "(1::int) \<le> 16 \<and> frameNumberToTimestamp (Some 16) = ''00:01.0''"
  using frameNumberToTimestamp_ordinal[of 16]
  by (simp add: Let_def padStart0_def String_nat_digit digit_char_def)

section \<open>Properties of the grouping\<close>

lemma cluster_push_mset:
  "mset (concat (map snd (cluster_push m l i))) = add_mset i (mset (concat (map snd m)))"
  by (induction m l i rule: cluster_push.induct) auto

lemma clusterMap_fold_mset:
  "mset (concat (map snd (fold (\<lambda>i m. cluster_push m (f i) i) is m)))
     = mset is + mset (concat (map snd m))"
  by (induction "is" arbitrary: m) (simp_all add: cluster_push_mset)

lemma clusterMap_mset: "mset (concat (map snd (clusterMap labels))) = mset [0..<length labels]"
  unfolding clusterMap_def by (simp add: clusterMap_fold_mset)

lemma cluster_push_labels:
  assumes "\<forall>(l, idxs) \<in> set m. \<forall>j \<in> set idxs. f j = l"
  shows "\<forall>(l, idxs) \<in> set (cluster_push m (f i) i). \<forall>j \<in> set idxs. f j = l"
  using assms by (induction m "f i" i rule: cluster_push.induct) auto

lemma clusterMap_fold_labels:
  assumes "\<forall>(l, idxs) \<in> set m. \<forall>j \<in> set idxs. f j = l"
  shows "\<forall>(l, idxs) \<in> set (fold (\<lambda>i m. cluster_push m (f i) i) is m). \<forall>j \<in> set idxs. f j = l"
  using assms
proof (induction "is" arbitrary: m)
  case Nil then show ?case by simp
next
  case (Cons i "is")
  show ?case unfolding fold_Cons comp_apply
    by (rule Cons.IH) (rule cluster_push_labels[OF Cons.prems])
qed

lemma clusterMap_labels:
  "(l, idxs) \<in> set (clusterMap labels) \<Longrightarrow> j \<in> set idxs \<Longrightarrow> labels ! j = l"
  using clusterMap_fold_labels[of "[]" "\<lambda>i. labels ! i" "[0..<length labels]"]
  unfolding clusterMap_def by fastforce

lemma cluster_push_keys:
  "map fst (cluster_push m l i) = (if l \<in> fst ` set m then map fst m else map fst m @ [l])"
  by (induction m l i rule: cluster_push.induct) auto

lemma cluster_push_distinct: "distinct (map fst m) \<Longrightarrow> distinct (map fst (cluster_push m l i))"
  by (simp add: cluster_push_keys)

lemma clusterMap_fold_distinct:
  "distinct (map fst m) \<Longrightarrow> distinct (map fst (fold (\<lambda>i m. cluster_push m (f i) i) is m))"
  by (induction "is" arbitrary: m) (simp_all add: cluster_push_distinct)

lemma clusterMap_distinct: "distinct (map fst (clusterMap labels))"
  unfolding clusterMap_def by (rule clusterMap_fold_distinct) simp

lemma insert_by_mset: "mset (insert_by gt x ys) = add_mset x (mset ys)"
  by (induction ys) auto

lemma js_sort_mset: "mset (js_sort gt xs) = mset xs"
  unfolding js_sort_def by (induction xs) (simp_all add: insert_by_mset)

lemma js_sort_set: "set (js_sort gt xs) = set xs"
  using js_sort_mset[of gt xs] by (metis set_mset_mset)

lemma js_sort_length: "length (js_sort gt xs) = length xs"
  using js_sort_mset[of gt xs] by (metis size_mset)

lemma mset_concat_map: "mset (concat (map f xs)) = (\<Sum>x\<in>#mset xs. mset (f x))"
  by (induction xs) auto

lemma mset_concat_perm:
  "mset xs = mset ys \<Longrightarrow> mset (concat (map f xs)) = mset (concat (map f ys))"
  by (simp add: mset_concat_map)

lemma sortedClusters_indices_mset:
  "mset (concat (map (\<lambda>c. fst (snd c)) (sortedClusters e frms labels))) = mset [0..<length labels]"
proof -
  let ?cs = "map (\<lambda>(label, indices). (label, indices, avgFrame e frms indices)) (clusterMap labels)"
  have "mset (concat (map (\<lambda>c. fst (snd c)) (sortedClusters e frms labels)))
      = mset (concat (map (\<lambda>c. fst (snd c)) ?cs))"
    unfolding sortedClusters_def by (rule mset_concat_perm) (rule js_sort_mset)
  also have "map (\<lambda>c. fst (snd c)) ?cs = map snd (clusterMap labels)"
    by (simp add: case_prod_beta)
  finally show ?thesis by (simp add: clusterMap_mset)
qed

lemma assign_labels_length: "length (assign_labels n oi cl) = n"
proof -
  have "length (fold (\<lambda>(idx, l) labels. labels[idx := l]) ps ls) = length ls" for ps and ls :: "int list"
    by (induction ps arbitrary: ls) (simp_all add: case_prod_beta)
  then show ?thesis unfolding assign_labels_def by simp
qed

lemma frame_labels_length: "length (frame_labels e nCl eps frms txts) = length frms"
  unfolding frame_labels_def Let_def
  by (simp add: assign_labels_length split: option.splits)

lemma frameTimestamps_fileNames:
  "mset (map fileName (frameTimestamps e frms idxs)) = mset (map (\<lambda>i. path_basename e (frms ! i) []) idxs)"
proof -
  have "mset (map fileName (frameTimestamps e frms idxs))
      = image_mset fileName (mset (frameTimestamps e frms idxs))" by simp
  also have "\<dots> = image_mset fileName (mset (map (\<lambda>i. let frameNum = getFrameNumber e (frms ! i)
                  in \<lparr>frameNumber = frameNum, timestamp = frameNumberToTimestamp frameNum,
                      fileName = path_basename e (frms ! i) []\<rparr>) idxs))"
    unfolding frameTimestamps_def by (simp only: js_sort_mset)
  also have "\<dots> = mset (map (\<lambda>i. path_basename e (frms ! i) []) idxs)"
    by (simp add: Let_def comp_def multiset.map_comp)
  finally show ?thesis .
qed

lemma frameTimestamps_length: "length (frameTimestamps e frms idxs) = length idxs"
  unfolding frameTimestamps_def by (simp add: js_sort_length)

lemma make_group_Inr:
  assumes "make_group e frms txts rd gi idxs = Inr g"
  shows "frames g = frameTimestamps e frms idxs" and "frameCount g = length idxs"
  using assms unfolding make_group_def Let_def
  by (auto split: sum.splits option.splits)

lemma build_groups_Inr:
  assumes "build_groups e frms txts rd gi cs = Inr gs"
  shows "map frames gs = map (frameTimestamps e frms) cs \<and> map frameCount gs = map length cs"
  using assms
proof (induction cs arbitrary: gi gs)
  case Nil
  then show ?case by simp
next
  case (Cons c cs)
  from Cons.prems obtain g gs' where g: "make_group e frms txts rd gi c = Inr g"
    and gs': "build_groups e frms txts rd (gi + 1) cs = Inr gs'" and gs: "gs = g # gs'"
    by (auto split: sum.splits)
  from Cons.IH[OF gs'] make_group_Inr[OF g] show ?case
    unfolding gs by simp
qed

lemma group_frames_Inr:
  assumes "group_frames e nCl eps od frms txts = Inr gs"
  shows "map frames gs = map (frameTimestamps e frms)
            (map (\<lambda>c. fst (snd c)) (sortedClusters e frms (frame_labels e nCl eps frms txts)))"
    and "map frameCount gs = map length
            (map (\<lambda>c. fst (snd c)) (sortedClusters e frms (frame_labels e nCl eps frms txts)))"
proof -
  let ?cs = "map (\<lambda>c. fst (snd c)) (sortedClusters e frms (frame_labels e nCl eps frms txts))"
  from assms have b: "build_groups e frms txts (path_join e od ''representative_frames'') 0 ?cs = Inr gs"
    unfolding group_frames_def Let_def by (auto split: option.splits)
  note r = build_groups_Inr[OF b]
  show "map frames gs = map (frameTimestamps e frms) ?cs" using r by blast
  show "map frameCount gs = map length ?cs" using r by blast
qed

lemma group_frames_files:
  assumes "group_frames e nCl eps od frms txts = Inr gs"
  shows "mset (concat (map group_files gs)) = mset (map (\<lambda>f. path_basename e f []) frms)"
proof -
  let ?cs = "map (\<lambda>c. fst (snd c)) (sortedClusters e frms (frame_labels e nCl eps frms txts))"
  have "map group_files gs = map (map fileName) (map frames gs)"
    by (simp add: group_files_def comp_def)
  then have "map group_files gs = map (\<lambda>idxs. map fileName (frameTimestamps e frms idxs)) ?cs"
    unfolding group_frames_Inr(1)[OF assms] by (simp add: comp_def)
  then have "mset (concat (map group_files gs))
      = (\<Sum>idxs\<in>#mset ?cs. mset (map fileName (frameTimestamps e frms idxs)))"
    by (simp only: mset_concat_map)
  also have "\<dots> = (\<Sum>idxs\<in>#mset ?cs. mset (map (\<lambda>i. path_basename e (frms ! i) []) idxs))"
    by (simp only: frameTimestamps_fileNames)
  also have "\<dots> = mset (concat (map (map (\<lambda>i. path_basename e (frms ! i) [])) ?cs))"
    by (simp only: mset_concat_map)
  also have "\<dots> = image_mset (\<lambda>i. path_basename e (frms ! i) []) (mset (concat ?cs))"
    by (simp only: map_concat[symmetric] mset_map)
  also have "mset (concat ?cs) = mset [0..<length frms]"
    by (simp only: sortedClusters_indices_mset frame_labels_length)
  also have "image_mset (\<lambda>i. path_basename e (frms ! i) []) (mset [0..<length frms])
      = mset (map (\<lambda>f. path_basename e f []) (map (\<lambda>i. frms ! i) [0..<length frms]))"
    by (simp add: comp_def)
  finally show ?thesis by (simp only: map_nth)
qed

lemma example_env_fields:
  "path_resolve (example_env c f k) = (\<lambda>p. p)"
  "path_extname (example_env c f k) = posix_extname"
  "path_basename (example_env c f k) = posix_basename"
  "path_dirname (example_env c f k) = posix_dirname"
  "path_join (example_env c f k) = (\<lambda>a b. a @ ''/'' @ b)"
  "CACHE_DIR (example_env c f k) = ''/work/video-cache''"
  "fs_mkdir (example_env c f k) = (\<lambda>p. None)"
  "fs_stat (example_env c f k) = (\<lambda>p. True)"
  "fs_readdir (example_env c f k) = (\<lambda>d. Inr f)"
  "fs_writeFile (example_env c f k) = (\<lambda>p c. None)"
  "fs_copyFile (example_env c f k) = (\<lambda>a b. None)"
  "read_ocr_cache (example_env c f k) = (\<lambda>p. c)"
  "sha256_file (example_env c f k) = (\<lambda>p. Inr ''ab12'')"
  "ffprobe (example_env c f k) = (\<lambda>p. Inr 30)"
  "ffmpeg (example_env c f k) = (\<lambda>a b. None)"
  "tesseract (example_env c f k) = (\<lambda>f l. Inr ''slide one'')"
  "kmeans (example_env c f k) = (\<lambda>data k. replicate (length data) 0)"
  "dbscan_run (example_env c f k) = (\<lambda>data eps minPts dist. k)"
  "Math_log (example_env c f k) = Math_log_nearest"
  by (simp_all add: example_env_def)

lemma buildTfidfMatrix_length: "length (matrix (buildTfidfMatrix lg txts)) = length (nonEmpty txts)"
  unfolding buildTfidfMatrix_def Let_def by simp

lemma buildTfidfMatrix_originalIndices: "originalIndices (buildTfidfMatrix lg txts) = map fst (nonEmpty txts)"
  unfolding buildTfidfMatrix_def Let_def by simp

lemma nonEmpty_two: "nonEmpty ['''', ''hello world''] = [(1, ''hello world'')]"
  by (simp add: nonEmpty_def enumerate_eq_zip trim_def is_space_def upt_rec)

lemma frame_numbers_1_2: "getFrameNumber (example_env c f k) ''/work/video-cache/ab12/frames/frame_000001.jpg'' = Some 1"
  "getFrameNumber (example_env c f k) ''/work/video-cache/ab12/frames/frame_000002.jpg'' = Some 2"
  by (simp_all add: getFrameNumber_def example_env_fields posix_extname_def posix_basename_def endsWith_def
     parseInt10_def digit_value_def is_space_def Let_def)

lemma two_labels_assign: "frame_labels (example_env c f k) (Some 1) None fr ['''', ''hello world''] = assign_labels (length fr) [1] [0]"
  unfolding frame_labels_def Let_def
  by (simp add: buildTfidfMatrix_length buildTfidfMatrix_originalIndices nonEmpty_two clusterKMeans_def)

lemma two_clusterMap: "clusterMap [-1, 0] = [(-1, [0]), (0, [1])]"
  by (simp add: clusterMap_def upt_rec)

lemma two_prepare:
  "prepare_run (example_env (Some two_frames) [] k) one_cluster
     = Inr (''/in/talk.mp4'', ''/in/talk'', 30, Some (c_frames two_frames, c_texts two_frames))"
  by (simp add: prepare_run_def example_env_fields one_cluster_def Let_def getVideoFps_def acquire_def
      loadCache_def posix_extname_def posix_basename_def posix_dirname_def endsWith_def list_all_iff)

lemma two_labels:
  "frame_labels (example_env c f k) (Some 1) None (c_frames two_frames) (c_texts two_frames) = [-1, 0]"
  by (simp add: two_frames_def two_labels_assign assign_labels_def)

lemma two_sorted:
  "sortedClusters (example_env c f k) (c_frames two_frames) [-1, 0] = [(-1, [0], Some 1), (0, [1], Some 2)]"
  by (simp add: sortedClusters_def two_clusterMap avgFrame_def two_frames_def frame_numbers_1_2 js_sort_def diff_positive_def)

lemma timestamps_1_2: "frameNumberToTimestamp (Some 1) = ''00:00.0''" "frameNumberToTimestamp (Some 2) = ''00:00.1''"
  by (simp_all add: frameNumberToTimestamp_def SAMPLE_FPS_def js_rem_def toFixed1_def padStart0_def
      String_nat_digit digit_char_def Let_def)

lemma selectRepresentative_single: "selectRepresentative lg [p] [t] = Inr p"
  by (simp add: selectRepresentative_def)

lemma two_group1:
  "make_group (example_env c f k) (c_frames two_frames) (c_texts two_frames) ''/in/talk/representative_frames'' 0 [0]
   = Inr \<lparr>groupIndex = 1, groupName = ''Group 1'',
          representativeFrame = ''/in/talk/representative_frames/group_01.jpg'', frameCount = 1,
          timeRange = (''00:00.0'', ''00:00.0''),
          frames = [\<lparr>frameNumber = Some 1, timestamp = ''00:00.0'', fileName = ''frame_000001.jpg''\<rparr>]\<rparr>"
  by (simp add: make_group_def Let_def two_frames_def selectRepresentative_single example_env_fields frameTimestamps_def
      js_sort_def frame_numbers_1_2 timestamps_1_2 String_nat_digit digit_char_def padStart0_def posix_extname_def posix_basename_def)

lemma two_group2:
  "make_group (example_env c f k) (c_frames two_frames) (c_texts two_frames) ''/in/talk/representative_frames'' (Suc 0) [Suc 0]
   = Inr \<lparr>groupIndex = 2, groupName = ''Group 2'',
          representativeFrame = ''/in/talk/representative_frames/group_02.jpg'', frameCount = 1,
          timeRange = (''00:00.1'', ''00:00.1''),
          frames = [\<lparr>frameNumber = Some 2, timestamp = ''00:00.1'', fileName = ''frame_000002.jpg''\<rparr>]\<rparr>"
  by (simp add: make_group_def Let_def two_frames_def selectRepresentative_single example_env_fields frameTimestamps_def
      js_sort_def frame_numbers_1_2 timestamps_1_2 String_nat_digit digit_char_def padStart0_def posix_extname_def posix_basename_def)

lemma two_groups:
  "group_frames (example_env c f k) (Some 1) None ''/in/talk'' (c_frames two_frames) (c_texts two_frames)
     = Inr (groups two_frames_result)"
  by (simp add: group_frames_def Let_def two_labels two_sorted example_env_fields two_group1 two_group2
       two_frames_result_def)

lemma two_analyze:
  "analyzeVideo (example_env (Some two_frames) [] k) one_cluster = Inr two_frames_result"
  unfolding analyzeVideo_def two_prepare
  by (simp add: two_groups one_cluster_def) (simp add: two_frames_result_def two_frames_def)

lemma analyzeVideo_Some:
  assumes "prepare_run e options = Inr (rp, od, rate, Some (frms, txts))"
    and "analyzeVideo e options = Inr res"
  shows "group_frames e (nClusters options) (dbscanEps options) od frms txts = Inr (groups res)"
    and "totalFrames res = length frms"
  using assms unfolding analyzeVideo_def by (auto split: sum.splits)

lemma group_frames_counts:
  assumes "group_frames e nCl eps od frms txts = Inr gs"
  shows "list_all (\<lambda>g. frameCount g = length (group_files g)) gs"
    and "sum_list (map frameCount gs) = length frms"
proof -
  let ?cs = "map (\<lambda>c. fst (snd c)) (sortedClusters e frms (frame_labels e nCl eps frms txts))"
  note f = group_frames_Inr(1)[OF assms] and c = group_frames_Inr(2)[OF assms]
  have len: "length gs = length ?cs" using c by (metis length_map)
  have "map (\<lambda>g. length (group_files g)) gs = map length (map frames gs)"
    by (simp add: group_files_def comp_def)
  also have "\<dots> = map length ?cs" unfolding f by (simp add: comp_def frameTimestamps_length)
  finally have eq: "map (\<lambda>g. length (group_files g)) gs = map frameCount gs" using c by simp
  show "list_all (\<lambda>g. frameCount g = length (group_files g)) gs"
    unfolding list_all_iff using eq by (metis (mono_tags, lifting) map_eq_conv)
  have "sum_list (map frameCount gs) = sum_list (map length ?cs)" using c by simp
  also have "\<dots> = length (concat ?cs)" by (simp add: length_concat)
  also have "\<dots> = size (mset (concat ?cs))" by simp
  also have "\<dots> = length frms"
    by (simp only: sortedClusters_indices_mset frame_labels_length size_mset length_upt)
  finally show "sum_list (map frameCount gs) = length frms" .
qed

text \<open>
  Claim C10. In a run whose frames and texts are \<open>frms\<close> and \<open>txts\<close>, index-aligned as the
  cache stores them, the groups of the result partition the sampled frames: the file names
  in the groups' frame lists are, as a multiset, the file names of the sampled frames, so
  every frame is in exactly one group and, when the file names are distinct, no name occurs
  twice in a group or in two groups; every \<open>frameCount\<close> is the length of its frame list, and
  the counts add up to \<open>totalFrames\<close>.
\<close>

theorem analyzeVideo_groups_partition:
  assumes "prepare_run e options = Inr (rp, od, rate, Some (frms, txts))"
    and "length txts = length frms"
    and "analyzeVideo e options = Inr res"
  shows "totalFrames res = length frms
       \<and> mset (concat (map group_files (groups res))) = mset (map (\<lambda>f. path_basename e f []) frms)
       \<and> (distinct (map (\<lambda>f. path_basename e f []) frms)
            \<longrightarrow> distinct (concat (map group_files (groups res))))
       \<and> list_all (\<lambda>g. frameCount g = length (group_files g)) (groups res)
       \<and> sum_list (map frameCount (groups res)) = totalFrames res"
proof -
  note g = analyzeVideo_Some[OF assms(1) assms(3)]
  have m: "mset (concat (map group_files (groups res))) = mset (map (\<lambda>f. path_basename e f []) frms)"
    by (rule group_frames_files[OF g(1)])
  have d: "distinct (concat (map group_files (groups res)))"
    if "distinct (map (\<lambda>f. path_basename e f []) frms)"
    using that m by (metis distinct_count_atmost_1 count_mset_0_iff mset_eq_imp_distinct_iff)
  show ?thesis
    using g(2) m d group_frames_counts[OF g(1)] by simp
qed

theorem analyzeVideo_groups_partition_witness:
  "prepare_run (example_env (Some two_frames) [] []) one_cluster
     = Inr (''/in/talk.mp4'', ''/in/talk'', 30, Some (c_frames two_frames, c_texts two_frames))
   \<and> length (c_texts two_frames) = length (c_frames two_frames)
   \<and> analyzeVideo (example_env (Some two_frames) [] []) one_cluster = Inr two_frames_result
   \<and> totalFrames two_frames_result = 2
   \<and> concat (map group_files (groups two_frames_result)) = [''frame_000001.jpg'', ''frame_000002.jpg'']
   \<and> sum_list (map frameCount (groups two_frames_result)) = 2"
  using analyzeVideo_groups_partition[OF two_prepare[of "[]"] _ two_analyze[of "[]"]]
  by (simp add: two_prepare two_analyze) (simp add: two_frames_def two_frames_result_def group_files_def)

lemma clusterMap_indices: "set (concat (map snd (clusterMap labels))) = {0..<length labels}"
  using clusterMap_mset[of labels] by (metis set_mset_mset set_upt)

lemma clusterMap_entry:
  assumes "i < length labels"
  shows "\<exists>idxs. (labels ! i, idxs) \<in> set (clusterMap labels)
              \<and> set idxs = {j. j < length labels \<and> labels ! j = labels ! i}"
proof -
  have mem: "\<exists>idxs. (labels ! j, idxs) \<in> set (clusterMap labels) \<and> j \<in> set idxs"
    if "j < length labels" for j
  proof -
    from that have "j \<in> set (concat (map snd (clusterMap labels)))"
      unfolding clusterMap_indices by simp
    then obtain l idxs where in_cm: "(l, idxs) \<in> set (clusterMap labels)" and j: "j \<in> set idxs"
      by auto
    from clusterMap_labels[OF in_cm j] in_cm j show ?thesis by auto
  qed
  from mem[OF assms] obtain idxs where
    in_cm: "(labels ! i, idxs) \<in> set (clusterMap labels)" and i: "i \<in> set idxs" by blast
  have "set idxs = {j. j < length labels \<and> labels ! j = labels ! i}"
  proof (intro set_eqI iffI)
    fix j assume j: "j \<in> set idxs"
    then have "j \<in> set (concat (map snd (clusterMap labels)))" using in_cm by force
    then have "j < length labels" unfolding clusterMap_indices by simp
    with clusterMap_labels[OF in_cm j] show "j \<in> {j. j < length labels \<and> labels ! j = labels ! i}"
      by simp
  next
    fix j assume "j \<in> {j. j < length labels \<and> labels ! j = labels ! i}"
    then have jl: "j < length labels" and eq: "labels ! j = labels ! i" by simp_all
    from mem[OF jl] obtain idxs' where
      in': "(labels ! i, idxs') \<in> set (clusterMap labels)" and j': "j \<in> set idxs'"
      unfolding eq by blast
    have "idxs' = idxs"
      using clusterMap_distinct[of labels] in' in_cm by (rule eq_key_imp_eq_value)
    with j' show "j \<in> set idxs" by simp
  qed
  with in_cm show ?thesis by blast
qed

lemma sortedClusters_indices_set:
  "set (map (\<lambda>c. fst (snd c)) (sortedClusters e frms labels)) = snd ` set (clusterMap labels)"
  unfolding sortedClusters_def by (force simp: js_sort_set)

lemma group_files_of_cluster:
  assumes "group_frames e nCl eps od frms txts = Inr gs"
    and "(l, idxs) \<in> set (clusterMap (frame_labels e nCl eps frms txts))"
  shows "\<exists>g \<in> set gs. set (group_files g) = (\<lambda>j. path_basename e (frms ! j) []) ` set idxs"
proof -
  let ?cs = "map (\<lambda>c. fst (snd c)) (sortedClusters e frms (frame_labels e nCl eps frms txts))"
  from assms(2) have "idxs \<in> set ?cs"
    unfolding sortedClusters_indices_set by force
  then obtain k where k: "k < length ?cs" and ck: "?cs ! k = idxs"
    by (metis in_set_conv_nth)
  note f = group_frames_Inr(1)[OF assms(1)]
  have len: "length gs = length ?cs" using f by (metis length_map)
  have "frames (gs ! k) = frameTimestamps e frms idxs"
    using f k len ck by (metis nth_map)
  then have "mset (group_files (gs ! k)) = mset (map (\<lambda>j. path_basename e (frms ! j) []) idxs)"
    unfolding group_files_def by (simp only: frameTimestamps_fileNames)
  then have "set (group_files (gs ! k)) = set (map (\<lambda>j. path_basename e (frms ! j) []) idxs)"
    by (rule mset_eq_setD)
  moreover have "gs ! k \<in> set gs" using k len by simp
  ultimately show ?thesis by auto
qed

lemma tokenize_alpha: "tokenize ''alpha'' = [''alpha'']"
  by (simp add: tokenize_def toLowerCase_char_def replace_other_def is_space_def STOP_WORDS_def)

lemma tokenize_beta: "tokenize ''beta'' = [''beta'']"
  by (simp add: tokenize_def toLowerCase_char_def replace_other_def is_space_def STOP_WORDS_def)

lemma nonEmpty_alpha_twice: "nonEmpty [''alpha'', ''alpha''] = [(0, ''alpha''), (1, ''alpha'')]"
  by (simp add: nonEmpty_def enumerate_eq_zip trim_def is_space_def upt_rec)

lemma maxDf_two: "maxDf 2 = 1"
  by (simp add: maxDf_def)

lemma matrix_alpha_twice:
  "lg 1 = 0 \<Longrightarrow>
   buildTfidfMatrix lg [''alpha'', ''alpha''] = \<lparr>matrix = [[1], [1]], vocabulary = [''alpha''], originalIndices = [0, 1]\<rparr>"
  by (simp add: buildTfidfMatrix_def nonEmpty_alpha_twice tokenize_alpha dfCounts_def uniqueTokens_def
      build_vocabulary_def maxDf_two raw_row_def termFrequency_def vocabIndex_def tfidf_weight_def
      l2_normalize_def Let_def double_small)

lemma centroid_alpha_twice: "centroid_of [[1], [1]] = [1]"
  by (simp add: centroid_of_def Let_def double_small)

lemma cosine_alpha_twice: "cosineSimilarity [1] [1] = 1"
  by (simp add: cosineSimilarity_def cosine_sums_def Let_def double_small)

lemma select_alpha_twice: "lg 1 = 0 \<Longrightarrow> selectRepresentative lg [p, q] [''alpha'', ''alpha''] = Inr p"
  by (simp add: selectRepresentative_def matrix_alpha_twice centroid_alpha_twice cosine_alpha_twice
      best_step_def Let_def upt_rec)

lemma nonEmpty_three:
  "nonEmpty [''alpha'', ''alpha'', ''beta''] = [(0, ''alpha''), (1, ''alpha''), (2, ''beta'')]"
  by (simp add: nonEmpty_def enumerate_eq_zip trim_def is_space_def upt_rec)

lemma buildTfidfMatrix_Nil: "(matrix (buildTfidfMatrix lg txts) = []) = (nonEmpty txts = [])"
  using buildTfidfMatrix_length[of lg txts] by (metis length_0_conv)

lemma three_prepare:
  "prepare_run (example_env (Some three_frames) [] k) density_half
     = Inr (''/in/talk.mp4'', ''/in/talk'', 30, Some (c_frames three_frames, c_texts three_frames))"
  by (simp add: prepare_run_def example_env_fields density_half_def Let_def getVideoFps_def acquire_def
      loadCache_def posix_extname_def posix_basename_def posix_dirname_def endsWith_def list_all_iff)

lemma three_labels:
  "frame_labels (example_env c f [[0, 1]]) None (Some (1 / 2)) (c_frames three_frames) (c_texts three_frames)
     = [0, 0, - 1]"
  by (simp add: frame_labels_def Let_def three_frames_def buildTfidfMatrix_length
      buildTfidfMatrix_originalIndices buildTfidfMatrix_Nil nonEmpty_three clusterDBSCAN_def example_env_fields
      enumerate_eq_zip assign_labels_def upt_rec)

lemma three_clusterMap: "clusterMap [0, 0, - 1] = [(0, [0, 1]), (- 1, [2])]"
  by (simp add: clusterMap_def upt_rec)

lemma frame_number_3: "getFrameNumber (example_env c f k) ''/work/video-cache/ab12/frames/frame_000003.jpg'' = Some 3"
  by (simp_all add: getFrameNumber_def example_env_fields posix_extname_def posix_basename_def endsWith_def
     parseInt10_def digit_value_def is_space_def Let_def)

lemma timestamp_3: "frameNumberToTimestamp (Some 3) = ''00:00.1''"
  by (simp_all add: frameNumberToTimestamp_def SAMPLE_FPS_def js_rem_def toFixed1_def padStart0_def
      String_nat_digit digit_char_def Let_def)

lemma three_sorted:
  "sortedClusters (example_env c f k) (c_frames three_frames) [0, 0, - 1]
     = [(0, [0, 1], Some (3 / 2)), (- 1, [2], Some 3)]"
  by (simp add: sortedClusters_def three_clusterMap avgFrame_def three_frames_def frame_numbers_1_2 frame_number_3 js_sort_def
      diff_positive_def)

lemma three_groups:
  "group_frames (example_env c f [[0, 1]]) None (Some (1 / 2)) ''/in/talk'' (c_frames three_frames)
      (c_texts three_frames) = Inr (groups three_frames_result)"
  unfolding group_frames_def Let_def three_labels three_sorted
  by (simp add: example_env_fields make_group_def
       three_frames_def select_alpha_twice Math_log_nearest_1 selectRepresentative_single frameTimestamps_def js_sort_def diff_positive_def
       frame_numbers_1_2 frame_number_3 timestamps_1_2 timestamp_3 String_nat_digit digit_char_def padStart0_def posix_extname_def
       posix_basename_def three_frames_result_def)

lemma three_analyze:
  "analyzeVideo (example_env (Some three_frames) [] [[0, 1]]) density_half = Inr three_frames_result"
proof -
  have g: "group_frames (example_env (Some three_frames) [] [[0, 1]]) (nClusters density_half)
             (dbscanEps density_half) ''/in/talk'' (c_frames three_frames) (c_texts three_frames)
           = Inr (groups three_frames_result)"
    using three_groups[of "Some three_frames" "[]"] by (simp add: density_half_def)
  show ?thesis
    unfolding analyzeVideo_def three_prepare prod.case sum.case option.case g
    by (simp add: three_frames_result_def three_frames_def)
qed

lemma nonEmpty_indices:
  "set (map fst (nonEmpty txts)) = {i. i < length txts \<and> trim (txts ! i) \<noteq> []}"
proof -
  have "fst ` set (nonEmpty txts) = {i. i < length txts \<and> trim (txts ! i) \<noteq> []}"
  proof (intro set_eqI iffI)
    fix i assume "i \<in> fst ` set (nonEmpty txts)"
    then obtain t where "(i, t) \<in> set (nonEmpty txts)" by force
    then have "(i, t) \<in> set (enumerate 0 txts)" and "trim t \<noteq> []"
      unfolding nonEmpty_def by simp_all
    then show "i \<in> {i. i < length txts \<and> trim (txts ! i) \<noteq> []}"
      by (simp add: in_set_enumerate_eq)
  next
    fix i assume "i \<in> {i. i < length txts \<and> trim (txts ! i) \<noteq> []}"
    then have "(i, txts ! i) \<in> set (enumerate 0 txts)" and "trim (txts ! i) \<noteq> []"
      by (simp_all add: in_set_enumerate_eq)
    then have "(i, txts ! i) \<in> set (nonEmpty txts)" unfolding nonEmpty_def by simp
    then show "i \<in> fst ` set (nonEmpty txts)" by force
  qed
  then show ?thesis by simp
qed

lemma group_frames_member:
  assumes "group_frames e nCl eps od frms txts = Inr gs" and "i < length frms"
  shows "path_basename e (frms ! i) [] \<in> set (concat (map group_files gs))"
proof -
  have "path_basename e (frms ! i) [] \<in> set (map (\<lambda>f. path_basename e f []) frms)"
    using assms(2) by simp
  also have "set (map (\<lambda>f. path_basename e f []) frms) = set (concat (map group_files gs))"
    using group_frames_files[OF assms(1)] by (rule mset_eq_setD[symmetric])
  finally show ?thesis .
qed

text \<open>
  Claim C1, as amended. Under density clustering the frames labeled \<open>-1\<close> are not discarded:
  in a run with \<open>dbscanEps\<close> given, whenever some frame has the label \<open>-1\<close>, one group of
  the result holds exactly the frames labeled \<open>-1\<close> (the noise of DBSCAN together with the
  frames whose text is empty).
\<close>

theorem noise_frames_form_a_group:
  assumes "prepare_run e options = Inr (rp, od, rate, Some (frms, txts))"
    and "length txts = length frms"
    and "analyzeVideo e options = Inr res"
    and "dbscanEps options = Some eps"
    and "i < length frms"
    and "frame_labels e (nClusters options) (Some eps) frms txts ! i = - 1"
  shows "\<exists>g \<in> set (groups res).
           set (group_files g) =
             (\<lambda>j. path_basename e (frms ! j) []) `
               {j. j < length frms \<and> frame_labels e (nClusters options) (Some eps) frms txts ! j = - 1}"
proof -
  let ?labels = "frame_labels e (nClusters options) (Some eps) frms txts"
  have g: "group_frames e (nClusters options) (Some eps) od frms txts = Inr (groups res)"
    using analyzeVideo_Some(1)[OF assms(1) assms(3)] assms(4) by simp
  have i: "i < length ?labels" using assms(5) by (simp add: frame_labels_length)
  from clusterMap_entry[OF i] obtain idxs where
    cm: "(?labels ! i, idxs) \<in> set (clusterMap ?labels)"
    and idxs: "set idxs = {j. j < length ?labels \<and> ?labels ! j = ?labels ! i}" by blast
  from group_files_of_cluster[OF g cm] obtain gr where
    gr: "gr \<in> set (groups res)"
    and files: "set (group_files gr) = (\<lambda>j. path_basename e (frms ! j) []) ` set idxs" by blast
  have "set (group_files gr) = (\<lambda>j. path_basename e (frms ! j) []) `
      {j. j < length frms \<and> ?labels ! j = - 1}"
    unfolding files idxs assms(6) frame_labels_length ..
  with gr show ?thesis by (rule rev_bexI)
qed

theorem noise_frames_form_a_group_witness:
  "prepare_run (example_env (Some three_frames) [] [[0, 1]]) density_half
     = Inr (''/in/talk.mp4'', ''/in/talk'', 30, Some (c_frames three_frames, c_texts three_frames))
   \<and> length (c_texts three_frames) = length (c_frames three_frames)
   \<and> analyzeVideo (example_env (Some three_frames) [] [[0, 1]]) density_half = Inr three_frames_result
   \<and> dbscanEps density_half = Some (1 / 2)
   \<and> 2 < length (c_frames three_frames)
   \<and> frame_labels (example_env (Some three_frames) [] [[0, 1]]) (nClusters density_half) (Some (1 / 2))
        (c_frames three_frames) (c_texts three_frames) ! 2 = - 1
   \<and> (\<exists>g \<in> set (groups three_frames_result).
         set (group_files g) =
           (\<lambda>j. path_basename (example_env (Some three_frames) [] [[0, 1]]) (c_frames three_frames ! j) []) `
             {j. j < length (c_frames three_frames)
                 \<and> frame_labels (example_env (Some three_frames) [] [[0, 1]]) (nClusters density_half)
                      (Some (1 / 2)) (c_frames three_frames) (c_texts three_frames) ! j = - 1})"
proof -
  have a: "length (c_texts three_frames) = length (c_frames three_frames)"
    by (simp add: three_frames_def)
  have b: "dbscanEps density_half = Some (1 / 2)" by (simp add: density_half_def)
  have c: "2 < length (c_frames three_frames)" by (simp add: three_frames_def)
  have n: "nClusters density_half = None" by (simp add: density_half_def)
  have d: "frame_labels (example_env (Some three_frames) [] [[0, 1]]) (nClusters density_half) (Some (1 / 2))
        (c_frames three_frames) (c_texts three_frames) ! 2 = - 1"
    unfolding n three_labels by simp
  note r = noise_frames_form_a_group[OF three_prepare a three_analyze b c d]
  show ?thesis by (intro conjI three_prepare a three_analyze b c d r)
qed

text \<open>
  Claim C1 as stated fails: with three cached frames whose texts are \<^verbatim>\<open>alpha\<close>, \<^verbatim>\<open>alpha\<close> and
  \<^verbatim>\<open>beta\<close>, \<open>eps = 1/2\<close> and a DBSCAN that returns the one cluster of the first two
  points, the third frame is noise, and it is the member of Group 2.
\<close>

theorem noise_frame_grouped_counterexample:
  "frame_labels (example_env (Some three_frames) [] [[0, 1]]) None (Some (1 / 2))
      (c_frames three_frames) (c_texts three_frames) = [0, 0, - 1]
   \<and> analyzeVideo (example_env (Some three_frames) [] [[0, 1]]) density_half = Inr three_frames_result
   \<and> c_frames three_frames ! 2 = ''/work/video-cache/ab12/frames/frame_000003.jpg''
   \<and> group_files (groups three_frames_result ! 1) = [''frame_000003.jpg'']"
  using three_labels three_analyze
  by (simp add: three_frames_def three_frames_result_def group_files_def)

text \<open>
  Claim C2, as amended. A frame whose OCR text is empty after trimming is counted in
  \<open>totalFrames\<close> and is kept out of the clustering input (the matrix has one row for each
  index of \<open>originalIndices\<close>, and the index of the frame is not among them), but it does
  appear in an output group.
\<close>

theorem empty_text_frames_grouped:
  assumes "prepare_run e options = Inr (rp, od, rate, Some (frms, txts))"
    and "length txts = length frms"
    and "analyzeVideo e options = Inr res"
    and "i < length frms"
    and "trim (txts ! i) = []"
  shows "totalFrames res = length frms
       \<and> length (matrix (buildTfidfMatrix (Math_log e) txts)) = length (originalIndices (buildTfidfMatrix (Math_log e) txts))
       \<and> i \<notin> set (originalIndices (buildTfidfMatrix (Math_log e) txts))
       \<and> path_basename e (frms ! i) [] \<in> set (concat (map group_files (groups res)))"
proof -
  note g = analyzeVideo_Some[OF assms(1) assms(3)]
  have "i \<notin> set (originalIndices (buildTfidfMatrix (Math_log e) txts))"
    unfolding buildTfidfMatrix_originalIndices nonEmpty_indices using assms(5) by simp
  moreover have "length (matrix (buildTfidfMatrix (Math_log e) txts)) = length (originalIndices (buildTfidfMatrix (Math_log e) txts))"
    by (simp add: buildTfidfMatrix_length buildTfidfMatrix_originalIndices)
  ultimately show ?thesis
    using g(2) group_frames_member[OF g(1) assms(4)] by simp
qed

theorem empty_text_frames_grouped_witness:
  "prepare_run (example_env (Some two_frames) [] []) one_cluster
     = Inr (''/in/talk.mp4'', ''/in/talk'', 30, Some (c_frames two_frames, c_texts two_frames))
   \<and> length (c_texts two_frames) = length (c_frames two_frames)
   \<and> analyzeVideo (example_env (Some two_frames) [] []) one_cluster = Inr two_frames_result
   \<and> 0 < length (c_frames two_frames)
   \<and> trim (c_texts two_frames ! 0) = []
   \<and> totalFrames two_frames_result = length (c_frames two_frames)
   \<and> 0 \<notin> set (originalIndices (buildTfidfMatrix (Math_log (example_env (Some two_frames) [] [])) (c_texts two_frames)))
   \<and> path_basename (example_env (Some two_frames) [] []) (c_frames two_frames ! 0) []
        \<in> set (concat (map group_files (groups two_frames_result)))"
proof -
  have a: "length (c_texts two_frames) = length (c_frames two_frames)" by (simp add: two_frames_def)
  have b: "0 < length (c_frames two_frames)" by (simp add: two_frames_def)
  have c: "trim (c_texts two_frames ! 0) = []" by (simp add: two_frames_def trim_def)
  note r = empty_text_frames_grouped[OF two_prepare a two_analyze b c]
  show ?thesis by (intro conjI two_prepare a two_analyze b c r[THEN conjunct1]
        r[THEN conjunct2, THEN conjunct2, THEN conjunct1] r[THEN conjunct2, THEN conjunct2, THEN conjunct2])
qed

text \<open>
  Claim C2 as stated fails: with two cached frames whose texts are empty and
  \<^verbatim>\<open>hello world\<close>, and \<open>nClusters = 1\<close>, the frame with the empty text is the member of
  Group 1.
\<close>

theorem empty_text_frame_grouped_counterexample:
  "analyzeVideo (example_env (Some two_frames) [] []) one_cluster = Inr two_frames_result
   \<and> c_texts two_frames ! 0 = []
   \<and> c_frames two_frames ! 0 = ''/work/video-cache/ab12/frames/frame_000001.jpg''
   \<and> group_files (groups two_frames_result ! 0) = [''frame_000001.jpg'']"
  using two_analyze
  by (simp add: two_frames_def two_frames_result_def group_files_def)

lemma clusterKMeans_min:
  "clusterKMeans km m (min k (int (length m))) = clusterKMeans km m k"
  unfolding clusterKMeans_def Let_def by simp

lemma autoK_clamp: "autoK n = clamp (round (sqrt (real n / 2))) 1 50"
  unfolding autoK_def clamp_def by simp

text \<open>
  Claim C6. When at least one frame is vectorized, the labels come from the strategy that
  the rule of the specification selects, mapped back to the frames: DBSCAN when \<open>eps\<close> is
  given, also when \<open>nClusters\<close> is given too; else K-means with the given \<open>nClusters\<close>; else
  K-means with \<open>clamp (round (sqrt (nVectors / 2))) 1 50\<close> clusters.
\<close>

theorem frame_labels_strategy:
  assumes "0 < length (matrix (buildTfidfMatrix (Math_log e) txts))"
  shows "frame_labels e nCl eps frms txts =
           assign_labels (length frms) (originalIndices (buildTfidfMatrix (Math_log e) txts))
             (run_strategy e (matrix (buildTfidfMatrix (Math_log e) txts))
                (spec_strategy nCl eps (length (matrix (buildTfidfMatrix (Math_log e) txts)))))"
  using assms unfolding frame_labels_def spec_strategy_def Let_def
  by (simp add: clusterKMeans_min autoK_clamp split: option.splits)

theorem frame_labels_strategy_witness:
  "0 < length (matrix (buildTfidfMatrix (Math_log (example_env None [] [[0, 1]])) (c_texts three_frames)))
   \<and> spec_strategy (Some 3) (Some (1 / 2)) (length (matrix (buildTfidfMatrix (Math_log (example_env None [] [[0, 1]])) (c_texts three_frames))))
       = DBSCAN (1 / 2)
   \<and> frame_labels (example_env None [] [[0, 1]]) (Some 3) (Some (1 / 2)) (c_frames three_frames)
         (c_texts three_frames)
       = assign_labels (length (c_frames three_frames))
           (originalIndices (buildTfidfMatrix (Math_log (example_env None [] [[0, 1]])) (c_texts three_frames)))
           (clusterDBSCAN (dbscan_run (example_env None [] [[0, 1]]))
              (matrix (buildTfidfMatrix (Math_log (example_env None [] [[0, 1]])) (c_texts three_frames))) (1 / 2) 2)"
proof -
  have a: "0 < length (matrix (buildTfidfMatrix (Math_log (example_env None [] [[0, 1]])) (c_texts three_frames)))"
    by (simp add: buildTfidfMatrix_length three_frames_def nonEmpty_three)
  have s: "spec_strategy (Some 3) (Some (1 / 2)) (length (matrix (buildTfidfMatrix (Math_log (example_env None [] [[0, 1]])) (c_texts three_frames))))
       = DBSCAN (1 / 2)"
    by (simp add: spec_strategy_def)
  show ?thesis
    using frame_labels_strategy[OF a, of "Some 3" "Some (1 / 2)"
        "c_frames three_frames"]
    unfolding s run_strategy.simps using a s by simp
qed

text \<open>
  Claim C8. When the output directory can be made, the video can be hashed, the cache has
  no record and the extraction gives no frame, the pipeline returns a result, with
  \<open>totalFrames = 0\<close>, no group and no representative frame path.
\<close>

theorem analyzeVideo_zero_frames:
  assumes "fs_mkdir e (path_join e (path_dirname e (path_resolve e (videoPath options)))
                        (path_basename e (path_resolve e (videoPath options))
                           (path_extname e (path_resolve e (videoPath options))))) = None"
    and "sha256_file e (path_resolve e (videoPath options)) = Inr h"
    and "loadCache e h = None"
    and "extractFrames e (path_resolve e (videoPath options)) (getCacheDir e h) = Inr []"
  shows "analyzeVideo e options =
           Inr \<lparr>r_videoPath = path_resolve e (videoPath options),
                outputDir = path_join e (path_dirname e (path_resolve e (videoPath options)))
                              (path_basename e (path_resolve e (videoPath options))
                                 (path_extname e (path_resolve e (videoPath options)))),
                fps = getVideoFps e (path_resolve e (videoPath options)),
                totalFrames = 0, groups = [], representativeFramePaths = []\<rparr>"
proof -
  have "acquire e (path_resolve e (videoPath options)) h lng wrk = Inr None" for lng wrk
    unfolding acquire_def using assms(3,4) by simp
  then show ?thesis
    unfolding analyzeVideo_def prepare_run_def Let_def using assms(1,2) by simp
qed

theorem analyzeVideo_zero_frames_witness:
  "fs_mkdir (example_env None [''notes.txt''] []) ''/in/talk'' = None
   \<and> sha256_file (example_env None [''notes.txt''] []) ''/in/talk.mp4'' = Inr ''ab12''
   \<and> loadCache (example_env None [''notes.txt''] []) ''ab12'' = None
   \<and> extractFrames (example_env None [''notes.txt''] []) ''/in/talk.mp4''
         (getCacheDir (example_env None [''notes.txt''] []) ''ab12'') = Inr []
   \<and> analyzeVideo (example_env None [''notes.txt''] []) one_cluster =
         Inr \<lparr>r_videoPath = ''/in/talk.mp4'', outputDir = ''/in/talk'', fps = 30,
              totalFrames = 0, groups = [], representativeFramePaths = []\<rparr>"
proof -
  let ?e = "example_env None [''notes.txt''] []"
  have p: "path_resolve ?e (videoPath one_cluster) = ''/in/talk.mp4''"
    by (simp add: example_env_fields one_cluster_def)
  have o: "path_join ?e (path_dirname ?e ''/in/talk.mp4'')
             (path_basename ?e ''/in/talk.mp4'' (path_extname ?e ''/in/talk.mp4'')) = ''/in/talk''"
    by (simp add: example_env_fields posix_dirname_def posix_basename_def posix_extname_def endsWith_def)
  have a: "fs_mkdir ?e ''/in/talk'' = None" by (simp add: example_env_fields)
  have b: "sha256_file ?e ''/in/talk.mp4'' = Inr ''ab12''" by (simp add: example_env_fields)
  have c: "loadCache ?e ''ab12'' = None" by (simp add: loadCache_def example_env_fields)
  have d: "extractFrames ?e ''/in/talk.mp4'' (getCacheDir ?e ''ab12'') = Inr []"
    by (simp add: extractFrames_def example_env_fields startsWith_def)
  have f: "getVideoFps ?e ''/in/talk.mp4'' = 30" by (simp add: getVideoFps_def example_env_fields)
  note r = analyzeVideo_zero_frames[of ?e one_cluster "''ab12''", unfolded p o f, OF a b c d]
  show ?thesis by (intro conjI a b c d r)
qed

section \<open>Properties of the vectorizer and of the representative\<close>

lemma map_incr_keys: "map fst (map_incr m k) = (if k \<in> set (map fst m) then map fst m else map fst m @ [k])"
  by (induction m k rule: map_incr.induct) auto

lemma map_incr_distinct: "distinct (map fst m) \<Longrightarrow> distinct (map fst (map_incr m k))"
  by (simp add: map_incr_keys)

lemma map_incr_count: "count_of (map_incr m k) t = count_of m t + (if t = k then 1 else 0)"
  unfolding count_of_def by (induction m k rule: map_incr.induct) auto

lemma map_incr_keyset: "fst ` set (map_incr m k) = insert k (fst ` set m)"
  by (induction m k rule: map_incr.induct) auto

lemma fold_incr_keys:
  "fst ` set (fold (\<lambda>token m. map_incr m token) ts m) = fst ` set m \<union> set ts"
  by (induction ts arbitrary: m) (simp_all add: map_incr_keyset)

lemma fold_incr_distinct:
  "distinct (map fst m) \<Longrightarrow> distinct (map fst (fold (\<lambda>token m. map_incr m token) ts m))"
  by (induction ts arbitrary: m) (simp_all add: map_incr_distinct)

lemma fold_incr_count:
  "count_of (fold (\<lambda>token m. map_incr m token) ts m) t = count_of m t + count_list ts t"
  by (induction ts arbitrary: m) (simp_all add: map_incr_count)

lemma uniqueTokens_set: "set (uniqueTokens ts) = set ts"
  by (simp add: uniqueTokens_def)

lemma uniqueTokens_distinct: "distinct (uniqueTokens ts)"
  by (simp add: uniqueTokens_def)

lemma count_list_distinct: "distinct xs \<Longrightarrow> count_list xs x = (if x \<in> set xs then 1 else 0)"
  by (induction xs) auto

lemma dfCounts_fold_keys:
  "fst ` set (fold (\<lambda>tokens m. fold (\<lambda>token m. map_incr m token) (uniqueTokens tokens) m) docs m)
     = fst ` set m \<union> \<Union> (set ` set docs)"
  by (induction docs arbitrary: m) (simp_all add: fold_incr_keys uniqueTokens_set Un_assoc)

lemma dfCounts_fold_distinct:
  "distinct (map fst m) \<Longrightarrow>
   distinct (map fst (fold (\<lambda>tokens m. fold (\<lambda>token m. map_incr m token) (uniqueTokens tokens) m) docs m))"
  by (induction docs arbitrary: m) (simp_all add: fold_incr_distinct)

lemma dfCounts_fold_count:
  "count_of (fold (\<lambda>tokens m. fold (\<lambda>token m. map_incr m token) (uniqueTokens tokens) m) docs m) t
     = count_of m t + doc_freq docs t"
  by (induction docs arbitrary: m)
     (simp_all add: fold_incr_count doc_freq_def count_list_distinct uniqueTokens_distinct uniqueTokens_set)

lemma dfCounts_keys: "fst ` set (dfCounts docs) = \<Union> (set ` set docs)"
  unfolding dfCounts_def dfCounts_fold_keys by simp

lemma dfCounts_distinct: "distinct (map fst (dfCounts docs))"
  unfolding dfCounts_def by (rule dfCounts_fold_distinct) simp

lemma dfCounts_count: "count_of (dfCounts docs) t = doc_freq docs t"
  unfolding dfCounts_def dfCounts_fold_count by (simp add: count_of_def)

lemma doc_freq_positive: "(1 \<le> doc_freq docs t) = (t \<in> \<Union> (set ` set docs))"
  unfolding doc_freq_def by (induction docs) auto

lemma dfCounts_entry: "((t, df) \<in> set (dfCounts docs)) = (t \<in> \<Union> (set ` set docs) \<and> df = doc_freq docs t)"
proof
  assume a: "(t, df) \<in> set (dfCounts docs)"
  then have "map_of (dfCounts docs) t = Some df"
    using dfCounts_distinct by (simp add: map_of_eq_Some_iff)
  then have "df = doc_freq docs t" using dfCounts_count[of docs t] by (simp add: count_of_def)
  moreover from a have "t \<in> fst ` set (dfCounts docs)" by force
  ultimately show "t \<in> \<Union> (set ` set docs) \<and> df = doc_freq docs t"
    unfolding dfCounts_keys by simp
next
  assume a: "t \<in> \<Union> (set ` set docs) \<and> df = doc_freq docs t"
  then have "t \<in> fst ` set (dfCounts docs)" unfolding dfCounts_keys by simp
  then obtain v where v: "(t, v) \<in> set (dfCounts docs)" by force
  then have "map_of (dfCounts docs) t = Some v"
    using dfCounts_distinct by (simp add: map_of_eq_Some_iff)
  then have "v = doc_freq docs t" using dfCounts_count[of docs t] by (simp add: count_of_def)
  with v a show "(t, df) \<in> set (dfCounts docs)" by simp
qed

lemma maxDf_floor: "maxDf n = nat \<lfloor>0.95 * real n\<rfloor>"
  by (simp add: maxDf_def mult.commute)

lemma build_vocabulary_set:
  "set (build_vocabulary (length docs) (dfCounts docs)) =
     (if {t. 1 \<le> doc_freq docs t \<and> (length docs \<le> 1 \<or> doc_freq docs t \<le> nat \<lfloor>0.95 * real (length docs)\<rfloor>)} = {}
      then \<Union> (set ` set docs)
      else {t. 1 \<le> doc_freq docs t \<and> (length docs \<le> 1 \<or> doc_freq docs t \<le> nat \<lfloor>0.95 * real (length docs)\<rfloor>)})"
proof -
  let ?n = "length docs"
  let ?P = "\<lambda>(term, df). df \<ge> 1 \<and> (?n \<le> 1 \<or> df \<le> maxDf ?n)"
  let ?kept = "{t. 1 \<le> doc_freq docs t \<and> (?n \<le> 1 \<or> doc_freq docs t \<le> nat \<lfloor>0.95 * real ?n\<rfloor>)}"
  have f: "set (map fst (filter ?P (dfCounts docs))) = ?kept"
  proof (intro set_eqI iffI)
    fix t assume "t \<in> set (map fst (filter ?P (dfCounts docs)))"
    then obtain df where "(t, df) \<in> set (dfCounts docs)" and "?P (t, df)" by force
    then show "t \<in> ?kept" by (simp add: dfCounts_entry maxDf_floor)
  next
    fix t assume k: "t \<in> ?kept"
    then have "1 \<le> doc_freq docs t" by simp
    then have "t \<in> \<Union> (set ` set docs)" by (rule doc_freq_positive[THEN iffD1])
    then have "(t, doc_freq docs t) \<in> set (dfCounts docs)" by (simp only: dfCounts_entry)
    moreover from k have "?P (t, doc_freq docs t)" by (simp add: maxDf_floor)
    ultimately have "(t, doc_freq docs t) \<in> set (dfCounts docs)" and "?P (t, doc_freq docs t)"
      by blast+
    then have "(t, doc_freq docs t) \<in> set (filter ?P (dfCounts docs))" by simp
    then show "t \<in> set (map fst (filter ?P (dfCounts docs)))" by force
  qed
  have k: "set (map fst (dfCounts docs)) = \<Union> (set ` set docs)"
    using dfCounts_keys[of docs] by simp
  show ?thesis
  proof (cases "?kept = {}")
    case True
    have "set (map fst (filter ?P (dfCounts docs))) = {}" unfolding f by (rule True)
    then have "map fst (filter ?P (dfCounts docs)) = []" by (simp only: set_empty simp_thms)
    then have bv: "build_vocabulary ?n (dfCounts docs) = map fst (dfCounts docs)"
      unfolding build_vocabulary_def Let_def by simp
    have "set (build_vocabulary ?n (dfCounts docs)) = \<Union> (set ` set docs)"
      unfolding bv by (rule k)
    then show ?thesis unfolding if_P[OF True] .
  next
    case False
    have "set (map fst (filter ?P (dfCounts docs))) \<noteq> {}" unfolding f by (rule False)
    then have "map fst (filter ?P (dfCounts docs)) \<noteq> []" by (simp only: set_empty simp_thms)
    then have bv: "build_vocabulary ?n (dfCounts docs) = map fst (filter ?P (dfCounts docs))"
      unfolding build_vocabulary_def Let_def by simp
    have "set (build_vocabulary ?n (dfCounts docs)) = ?kept"
      unfolding bv by (rule f)
    then show ?thesis unfolding if_not_P[OF False] .
  qed
qed

lemma build_vocabulary_distinct: "distinct (build_vocabulary n (dfCounts docs))"
  unfolding build_vocabulary_def Let_def
  using dfCounts_distinct[of docs] by (simp add: distinct_map_filter)

lemma buildTfidfMatrix_vocabulary:
  "nonEmpty texts \<noteq> [] \<Longrightarrow>
   vocabulary (buildTfidfMatrix lg texts) =
     build_vocabulary (length (map tokenize (map snd (nonEmpty texts))))
       (dfCounts (map tokenize (map snd (nonEmpty texts))))"
  unfolding buildTfidfMatrix_def Let_def by simp

lemma buildTfidfMatrix_row:
  "d < length (nonEmpty texts) \<Longrightarrow>
   matrix (buildTfidfMatrix lg texts) ! d =
     l2_normalize (raw_row lg (length (map tokenize (map snd (nonEmpty texts))))
        (dfCounts (map tokenize (map snd (nonEmpty texts))))
        (vocabulary (buildTfidfMatrix lg texts))
        (map tokenize (map snd (nonEmpty texts)) ! d))"
  unfolding buildTfidfMatrix_def Let_def by (auto simp: nth_map)

text \<open>
  Claim C4. When at least one text is not empty, a term is in the vocabulary if and only if
  its document frequency \<open>df\<close> satisfies \<open>df \<ge> 1\<close> and (\<open>nDocs \<le> 1\<close> or
  \<open>df \<le> floor (0.95 * nDocs)\<close>); when no term satisfies this, the vocabulary holds every
  observed term instead. No term occurs twice in the vocabulary.
\<close>

theorem vocabulary_retention:
  assumes "nonEmpty texts \<noteq> []"
  shows "let docs = map tokenize (map snd (nonEmpty texts));
             nDocs = length docs;
             kept = {t. 1 \<le> doc_freq docs t \<and> (nDocs \<le> 1 \<or> doc_freq docs t \<le> nat \<lfloor>0.95 * real nDocs\<rfloor>)}
         in distinct (vocabulary (buildTfidfMatrix lg texts))
            \<and> set (vocabulary (buildTfidfMatrix lg texts)) = (if kept = {} then \<Union> (set ` set docs) else kept)"
  unfolding Let_def buildTfidfMatrix_vocabulary[OF assms]
  using build_vocabulary_set[of "map tokenize (map snd (nonEmpty texts))"]
        build_vocabulary_distinct[of "length (map tokenize (map snd (nonEmpty texts)))"
           "map tokenize (map snd (nonEmpty texts))"]
  by blast

lemma doc_freq_alpha_twice: "doc_freq [[''alpha''], [''alpha'']] t = (if t = ''alpha'' then 2 else 0)"
  by (simp add: doc_freq_def)

theorem vocabulary_retention_witness:
  "nonEmpty [''alpha'', ''alpha''] \<noteq> []
   \<and> {t. 1 \<le> doc_freq [[''alpha''], [''alpha'']] t
          \<and> ((2::nat) \<le> 1 \<or> doc_freq [[''alpha''], [''alpha'']] t \<le> nat \<lfloor>0.95 * real (2::nat)\<rfloor>)} = {}
   \<and> set (vocabulary (buildTfidfMatrix Math_log_nearest [''alpha'', ''alpha''])) = {''alpha''}"
proof -
  have a: "nonEmpty [''alpha'', ''alpha''] \<noteq> []" by (simp add: nonEmpty_alpha_twice)
  have b: "{t. 1 \<le> doc_freq [[''alpha''], [''alpha'']] t
          \<and> ((2::nat) \<le> 1 \<or> doc_freq [[''alpha''], [''alpha'']] t \<le> nat \<lfloor>0.95 * real (2::nat)\<rfloor>)} = {}"
    by (simp add: doc_freq_alpha_twice)
  have d: "map tokenize (map snd (nonEmpty [''alpha'', ''alpha''])) = [[''alpha''], [''alpha'']]"
    by (simp add: nonEmpty_alpha_twice tokenize_alpha)
  from vocabulary_retention[OF a]
  have "set (vocabulary (buildTfidfMatrix Math_log_nearest [''alpha'', ''alpha''])) = {''alpha''}"
    unfolding Let_def d using b by simp
  with a b show ?thesis by blast
qed









lemma row_fold_length:
  "length (fold (\<lambda>(term, cnt) row. row[f term := w term cnt]) ps row) = length row"
  by (induction ps arbitrary: row) (simp_all add: case_prod_beta)




lemma raw_row_length: "length (raw_row lg nDocs dfc vocab tokens) = length vocab"
  unfolding raw_row_def by (simp add: row_fold_length)























lemma l2_normalize_length: "length (l2_normalize row) = length row"
  unfolding l2_normalize_def Let_def by simp




lemma best_fold:
  assumes "0 < n"
  shows "\<exists>b<n. fold (best_step m c) [0..<n] (0, None) = (b, Some (cosineSimilarity (m ! b) c))
              \<and> (\<forall>i<n. cosineSimilarity (m ! i) c \<le> cosineSimilarity (m ! b) c)
              \<and> (\<forall>i<b. cosineSimilarity (m ! i) c < cosineSimilarity (m ! b) c)"
  using assms
proof (induction n)
  case 0
  then show ?case by simp
next
  case (Suc n)
  show ?case
  proof (cases "n = 0")
    case True
    then show ?thesis by (simp add: best_step_def)
  next
    case False
    then have "0 < n" by simp
    from Suc.IH[OF this] obtain b where b: "b < n"
      and f: "fold (best_step m c) [0..<n] (0, None) = (b, Some (cosineSimilarity (m ! b) c))"
      and mx: "\<forall>i<n. cosineSimilarity (m ! i) c \<le> cosineSimilarity (m ! b) c"
      and first: "\<forall>i<b. cosineSimilarity (m ! i) c < cosineSimilarity (m ! b) c" by blast
    have step: "fold (best_step m c) [0..<Suc n] (0, None)
                 = best_step m c n (b, Some (cosineSimilarity (m ! b) c))"
      by (simp add: f)
    show ?thesis
    proof (cases "cosineSimilarity (m ! n) c > cosineSimilarity (m ! b) c")
      case True
      then have "fold (best_step m c) [0..<Suc n] (0, None) = (n, Some (cosineSimilarity (m ! n) c))"
        unfolding step by (simp add: best_step_def)
      moreover have "\<forall>i<Suc n. cosineSimilarity (m ! i) c \<le> cosineSimilarity (m ! n) c"
        using mx True by (auto simp: less_Suc_eq intro: order.trans less_imp_le)
      moreover have "\<forall>i<n. cosineSimilarity (m ! i) c < cosineSimilarity (m ! n) c"
        using mx True by (auto intro: le_less_trans)
      ultimately show ?thesis by blast
    next
      case False
      then have "fold (best_step m c) [0..<Suc n] (0, None) = (b, Some (cosineSimilarity (m ! b) c))"
        unfolding step by (simp add: best_step_def)
      moreover have "\<forall>i<Suc n. cosineSimilarity (m ! i) c \<le> cosineSimilarity (m ! b) c"
        using mx False by (auto simp: less_Suc_eq)
      ultimately show ?thesis using b first by (intro exI[of _ b]) simp
    qed
  qed
qed

lemma nonEmpty_distinct: "distinct (map fst (nonEmpty texts))"
  unfolding nonEmpty_def by (simp add: distinct_map_filter)

lemma nonEmpty_increasing: "sorted_wrt (<) (map fst (nonEmpty texts))"
proof -
  have "sorted_wrt (<) (map fst (enumerate 0 texts))" by simp
  then have "sorted_wrt (\<lambda>a b. fst a < fst b) (enumerate 0 texts)"
    by (simp only: sorted_wrt_map)
  then have "sorted_wrt (\<lambda>a b. fst a < fst b) (nonEmpty texts)"
    unfolding nonEmpty_def by (rule sorted_wrt_filter)
  then show ?thesis by (simp only: sorted_wrt_map)
qed

lemma distinct_set_singleton:
  assumes "set xs = {x}" and "distinct xs"
  shows "xs = [x]"
proof (cases xs)
  case Nil
  with assms(1) show ?thesis by simp
next
  case (Cons a ys)
  with assms have a: "a = x" and sub: "set ys \<subseteq> {x}" and nin: "x \<notin> set ys" by auto
  have "ys = []"
  proof (cases ys)
    case Nil
    then show ?thesis .
  next
    case (Cons b zs)
    then have "b \<in> set ys" by simp
    with sub have "b = x" by blast
    with \<open>b \<in> set ys\<close> nin show ?thesis by simp
  qed
  with Cons a show ?thesis by simp
qed

lemma nonEmpty_single:
  assumes "i < length texts" and "trim (texts ! i) \<noteq> []"
    and "\<forall>k<length texts. k \<noteq> i \<longrightarrow> trim (texts ! k) = []"
  shows "map fst (nonEmpty texts) = [i]"
proof -
  have "set (map fst (nonEmpty texts)) = {i}"
    unfolding nonEmpty_indices using assms by auto
  then show ?thesis
    using nonEmpty_distinct[of texts] by (rule_tac distinct_set_singleton)
qed

lemma nonEmpty_length_le: "length (nonEmpty texts) \<le> length texts"
  unfolding nonEmpty_def using length_filter_le[of _ "enumerate 0 texts"] by simp

lemma nonEmpty_Nil: "(\<forall>i<length texts. trim (texts ! i) = []) \<Longrightarrow> nonEmpty texts = []"
proof -
  assume "\<forall>i<length texts. trim (texts ! i) = []"
  then have "set (map fst (nonEmpty texts)) = {}" unfolding nonEmpty_indices by simp
  then show ?thesis by simp
qed

lemma selectRepresentative_one:
  "length ps = 1 \<Longrightarrow> selectRepresentative lg ps ts = Inr (ps ! 0)"
  unfolding selectRepresentative_def by simp

lemma selectRepresentative_no_text:
  assumes "ps \<noteq> []" and "nonEmpty ts = []"
  shows "selectRepresentative lg ps ts = Inr (ps ! 0)"
  using assms unfolding selectRepresentative_def Let_def
  by (simp add: buildTfidfMatrix_length)

lemma selectRepresentative_one_text:
  assumes "2 \<le> length ps" and "map fst (nonEmpty ts) = [i]"
  shows "selectRepresentative lg ps ts = Inr (ps ! i)"
proof -
  have "length (map fst (nonEmpty ts)) = 1" unfolding assms(2) by simp
  then have one: "length (nonEmpty ts) = 1" by simp
  have ps: "ps \<noteq> []" "length ps \<noteq> 1" using assms(1) by auto
  show ?thesis
    unfolding selectRepresentative_def Let_def buildTfidfMatrix_length buildTfidfMatrix_originalIndices
      one assms(2)
    using ps by simp
qed

lemma selectRepresentative_centroid:
  assumes "2 \<le> length (nonEmpty ts)" and "length ts = length ps"
  shows "\<exists>b<length (nonEmpty ts).
           selectRepresentative lg ps ts = Inr (ps ! (originalIndices (buildTfidfMatrix lg ts) ! b))
           \<and> (\<forall>i<length (nonEmpty ts).
                 cosineSimilarity (matrix (buildTfidfMatrix lg ts) ! i) (centroid_of (matrix (buildTfidfMatrix lg ts)))
                 \<le> cosineSimilarity (matrix (buildTfidfMatrix lg ts) ! b) (centroid_of (matrix (buildTfidfMatrix lg ts))))
           \<and> (\<forall>i<b.
                 cosineSimilarity (matrix (buildTfidfMatrix lg ts) ! i) (centroid_of (matrix (buildTfidfMatrix lg ts)))
                 < cosineSimilarity (matrix (buildTfidfMatrix lg ts) ! b) (centroid_of (matrix (buildTfidfMatrix lg ts))))"
proof -
  let ?m = "matrix (buildTfidfMatrix lg ts)"
  let ?n = "length (nonEmpty ts)"
  have n: "0 < ?n" using assms(1) by linarith
  from best_fold[OF n, of ?m "centroid_of ?m"] obtain b where b: "b < ?n"
    and f: "fold (best_step ?m (centroid_of ?m)) [0..<?n] (0, None)
              = (b, Some (cosineSimilarity (?m ! b) (centroid_of ?m)))"
    and mx: "\<forall>i<?n. cosineSimilarity (?m ! i) (centroid_of ?m) \<le> cosineSimilarity (?m ! b) (centroid_of ?m)"
    and first: "\<forall>i<b. cosineSimilarity (?m ! i) (centroid_of ?m) < cosineSimilarity (?m ! b) (centroid_of ?m)"
    by blast
  have "2 \<le> length ps" using assms nonEmpty_length_le[of ts] by simp
  then have ps: "length ps \<noteq> 0" "length ps \<noteq> 1" by linarith+
  have ne: "length (nonEmpty ts) \<noteq> 0" "length (nonEmpty ts) \<noteq> 1" using assms(1) by linarith+
  have "selectRepresentative lg ps ts = Inr (ps ! (originalIndices (buildTfidfMatrix lg ts) ! b))"
    unfolding selectRepresentative_def Let_def buildTfidfMatrix_length f
    by (simp only: ps ne if_False fst_conv)
  with b mx first show ?thesis by blast
qed

lemma centroid_fold:
  "length c = n \<Longrightarrow>
   foldl (\<lambda>centroid row. map (\<lambda>j. fadd (centroid ! j) (row ! j)) [0..<n]) c m
     = map (\<lambda>j. foldl (\<lambda>acc row. fadd acc (row ! j)) (c ! j) m) [0..<n]"
proof (induction m arbitrary: c)
  case Nil
  then show ?case using map_nth[of c] by simp
next
  case (Cons row m)
  have "length (map (\<lambda>j. fadd (c ! j) (row ! j)) [0..<n]) = n" by simp
  from Cons.IH[OF this] show ?case by simp
qed

lemma centroid_of_columns:
  "centroid_of m
     = map (\<lambda>j. fdiv (foldl (\<lambda>acc row. fadd acc (row ! j)) 0 m) (real (length m))) [0..<length (m ! 0)]"
  unfolding centroid_of_def Let_def
  by (simp add: centroid_fold)

lemma triple_fold:
  "foldl (\<lambda>(x, y, z) i. (f x i, g y i, h z i)) (x, y, z) xs = (foldl f x xs, foldl g y xs, foldl h z xs)"
  by (induction xs arbitrary: x y z) simp_all

lemma cosineSimilarity_sums:
  "cosineSimilarity a b =
     (if fmul (fsqrt (foldl (\<lambda>acc k. fadd acc (fmul (a ! k) (a ! k))) 0 [0..<length a]))
              (fsqrt (foldl (\<lambda>acc k. fadd acc (fmul (b ! k) (b ! k))) 0 [0..<length a])) = 0
      then 0
      else fdiv (foldl (\<lambda>acc k. fadd acc (fmul (a ! k) (b ! k))) 0 [0..<length a])
             (fmul (fsqrt (foldl (\<lambda>acc k. fadd acc (fmul (a ! k) (a ! k))) 0 [0..<length a]))
                   (fsqrt (foldl (\<lambda>acc k. fadd acc (fmul (b ! k) (b ! k))) 0 [0..<length a]))))"
  unfolding cosineSimilarity_def cosine_sums_def Let_def
  by (simp add: triple_fold[of "\<lambda>acc i. fadd acc (fmul (a ! i) (b ! i))"
        "\<lambda>acc i. fadd acc (fmul (a ! i) (a ! i))" "\<lambda>acc i. fadd acc (fmul (b ! i) (b ! i))"])

lemma buildTfidfMatrix_row_length:
  assumes "i < length (nonEmpty ts)"
  shows "length (matrix (buildTfidfMatrix lg ts) ! i) = length (vocabulary (buildTfidfMatrix lg ts))"
  unfolding buildTfidfMatrix_row[OF assms] by (simp only: l2_normalize_length raw_row_length)

text \<open>
  Claim C5. For a group that is not empty, with one text for each frame path,
  \<open>selectRepresentative\<close> returns: the single frame of a group of size 1; the first frame
  when every text is empty after trimming; the one frame whose text is not empty when
  there is exactly one; and, when at least two texts are not empty, the frame of a row \<open>b\<close>
  of the local TF-IDF matrix whose cosine similarity to the centroid is maximal, every
  earlier row having a strictly smaller similarity. The centroid is the mean of the rows,
  dimension by dimension: the rows added from the first to the last, then divided by their
  number. The similarity of a row to the centroid is their dot product divided by the
  product of the square roots of their squared norms, and 0 when that product is 0. Sums,
  products, quotients and square roots are the rounded ones of the code, so the similarity
  is the double that the code compares. The rows are the frames whose text is not empty,
  in the order of the group (\<open>originalIndices\<close> increases), so among the rows of maximal
  similarity the earliest frame wins.
\<close>

theorem selectRepresentative_cases:
  assumes "groupFramePaths \<noteq> []" and "length groupTexts = length groupFramePaths"
  shows "(length groupFramePaths = 1 \<longrightarrow>
            selectRepresentative lg groupFramePaths groupTexts = Inr (groupFramePaths ! 0))
       \<and> ((\<forall>i<length groupTexts. trim (groupTexts ! i) = []) \<longrightarrow>
            selectRepresentative lg groupFramePaths groupTexts = Inr (groupFramePaths ! 0))
       \<and> (\<forall>i<length groupTexts.
             trim (groupTexts ! i) \<noteq> [] \<and> (\<forall>k<length groupTexts. k \<noteq> i \<longrightarrow> trim (groupTexts ! k) = [])
             \<longrightarrow> selectRepresentative lg groupFramePaths groupTexts = Inr (groupFramePaths ! i))
       \<and> (2 \<le> length (nonEmpty groupTexts) \<longrightarrow>
            (let r = buildTfidfMatrix lg groupTexts;
                 m = matrix r;
                 dim = length (vocabulary r);
                 centroid = map (\<lambda>j. fdiv (foldl (\<lambda>acc row. fadd acc (row ! j)) 0 m) (real (length m)))
                              [0..<dim];
                 dot = (\<lambda>a b. foldl (\<lambda>acc k. fadd acc (fmul (a ! k) (b ! k))) 0 [0..<dim]);
                 denom = (\<lambda>i. fmul (fsqrt (dot (m ! i) (m ! i))) (fsqrt (dot centroid centroid)));
                 sim = (\<lambda>i. if denom i = 0 then 0 else fdiv (dot (m ! i) centroid) (denom i))
             in length m = length (nonEmpty groupTexts)
                \<and> (\<exists>b<length m.
                      selectRepresentative lg groupFramePaths groupTexts
                        = Inr (groupFramePaths ! (originalIndices r ! b))
                      \<and> (\<forall>i<length m. sim i \<le> sim b)
                      \<and> (\<forall>i<b. sim i < sim b))))
       \<and> sorted_wrt (<) (originalIndices (buildTfidfMatrix lg groupTexts))
       \<and> set (originalIndices (buildTfidfMatrix lg groupTexts))
            = {i. i < length groupTexts \<and> trim (groupTexts ! i) \<noteq> []}"
proof (intro conjI impI allI)
  assume "length groupFramePaths = 1"
  then show "selectRepresentative lg groupFramePaths groupTexts = Inr (groupFramePaths ! 0)"
    by (rule selectRepresentative_one)
next
  assume "\<forall>i<length groupTexts. trim (groupTexts ! i) = []"
  then have "nonEmpty groupTexts = []" by (rule nonEmpty_Nil)
  with assms(1) show "selectRepresentative lg groupFramePaths groupTexts = Inr (groupFramePaths ! 0)"
    by (rule selectRepresentative_no_text)
next
  fix i
  assume i: "i < length groupTexts"
    and only: "trim (groupTexts ! i) \<noteq> [] \<and> (\<forall>k<length groupTexts. k \<noteq> i \<longrightarrow> trim (groupTexts ! k) = [])"
  then have single: "map fst (nonEmpty groupTexts) = [i]" by (intro nonEmpty_single) simp_all
  show "selectRepresentative lg groupFramePaths groupTexts = Inr (groupFramePaths ! i)"
  proof (cases "length groupFramePaths = 1")
    case True
    with i assms(2) have "i = 0" by simp
    with True show ?thesis by (simp add: selectRepresentative_one)
  next
    case False
    moreover from assms(1) have "length groupFramePaths \<noteq> 0" by simp
    ultimately have "2 \<le> length groupFramePaths" by linarith
    then show ?thesis using single by (rule selectRepresentative_one_text)
  qed
next
  assume two: "2 \<le> length (nonEmpty groupTexts)"
  let ?r = "buildTfidfMatrix lg groupTexts"
  let ?m = "matrix ?r"
  let ?dim = "length (vocabulary ?r)"
  let ?c = "map (\<lambda>j. fdiv (foldl (\<lambda>acc row. fadd acc (row ! j)) 0 ?m) (real (length ?m))) [0..<?dim]"
  let ?dot = "\<lambda>a b. foldl (\<lambda>acc k. fadd acc (fmul (a ! k) (b ! k))) 0 [0..<?dim]"
  let ?denom = "\<lambda>i. fmul (fsqrt (?dot (?m ! i) (?m ! i))) (fsqrt (?dot ?c ?c))"
  let ?sim = "\<lambda>i. if ?denom i = 0 then 0 else fdiv (?dot (?m ! i) ?c) (?denom i)"
  have len: "length ?m = length (nonEmpty groupTexts)" by (rule buildTfidfMatrix_length)
  have "0 < length (nonEmpty groupTexts)" using two by linarith
  then have "length (?m ! 0) = ?dim" by (rule buildTfidfMatrix_row_length)
  then have c: "centroid_of ?m = ?c" by (simp only: centroid_of_columns)
  have sim: "cosineSimilarity (?m ! i) (centroid_of ?m) = ?sim i" if "i < length (nonEmpty groupTexts)" for i
    unfolding c cosineSimilarity_sums buildTfidfMatrix_row_length[OF that] ..
  from selectRepresentative_centroid[OF two assms(2), of lg] obtain b where b: "b < length (nonEmpty groupTexts)"
    and s: "selectRepresentative lg groupFramePaths groupTexts
              = Inr (groupFramePaths ! (originalIndices ?r ! b))"
    and mx: "\<forall>i<length (nonEmpty groupTexts).
               cosineSimilarity (?m ! i) (centroid_of ?m) \<le> cosineSimilarity (?m ! b) (centroid_of ?m)"
    and first: "\<forall>i<b. cosineSimilarity (?m ! i) (centroid_of ?m) < cosineSimilarity (?m ! b) (centroid_of ?m)"
    by blast
  have mx': "\<forall>i<length ?m. ?sim i \<le> ?sim b"
  proof (intro allI impI)
    fix i assume "i < length ?m"
    then have i: "i < length (nonEmpty groupTexts)" unfolding len .
    from mx i have "cosineSimilarity (?m ! i) (centroid_of ?m) \<le> cosineSimilarity (?m ! b) (centroid_of ?m)"
      by blast
    then show "?sim i \<le> ?sim b" unfolding sim[OF i] sim[OF b] .
  qed
  have first': "\<forall>i<b. ?sim i < ?sim b"
  proof (intro allI impI)
    fix i assume ib: "i < b"
    then have i: "i < length (nonEmpty groupTexts)" using b by linarith
    from first ib have "cosineSimilarity (?m ! i) (centroid_of ?m) < cosineSimilarity (?m ! b) (centroid_of ?m)"
      by blast
    then show "?sim i < ?sim b" unfolding sim[OF i] sim[OF b] .
  qed
  have "\<exists>b<length ?m. selectRepresentative lg groupFramePaths groupTexts
              = Inr (groupFramePaths ! (originalIndices ?r ! b))
            \<and> (\<forall>i<length ?m. ?sim i \<le> ?sim b) \<and> (\<forall>i<b. ?sim i < ?sim b)"
    using b s mx' first' unfolding len by blast
  with len show "let r = buildTfidfMatrix lg groupTexts;
                 m = matrix r;
                 dim = length (vocabulary r);
                 centroid = map (\<lambda>j. fdiv (foldl (\<lambda>acc row. fadd acc (row ! j)) 0 m) (real (length m)))
                              [0..<dim];
                 dot = (\<lambda>a b. foldl (\<lambda>acc k. fadd acc (fmul (a ! k) (b ! k))) 0 [0..<dim]);
                 denom = (\<lambda>i. fmul (fsqrt (dot (m ! i) (m ! i))) (fsqrt (dot centroid centroid)));
                 sim = (\<lambda>i. if denom i = 0 then 0 else fdiv (dot (m ! i) centroid) (denom i))
             in length m = length (nonEmpty groupTexts)
                \<and> (\<exists>b<length m.
                      selectRepresentative lg groupFramePaths groupTexts
                        = Inr (groupFramePaths ! (originalIndices r ! b))
                      \<and> (\<forall>i<length m. sim i \<le> sim b)
                      \<and> (\<forall>i<b. sim i < sim b))"
    unfolding Let_def by (rule conjI)
next
  show "sorted_wrt (<) (originalIndices (buildTfidfMatrix lg groupTexts))"
    unfolding buildTfidfMatrix_originalIndices by (rule nonEmpty_increasing)
next
  show "set (originalIndices (buildTfidfMatrix lg groupTexts))
            = {i. i < length groupTexts \<and> trim (groupTexts ! i) \<noteq> []}"
    unfolding buildTfidfMatrix_originalIndices by (rule nonEmpty_indices)
qed

theorem selectRepresentative_cases_witness:
  "[''frame_000001.jpg'', ''frame_000002.jpg''] \<noteq> []
   \<and> length [''alpha'', ''alpha''] = length [''frame_000001.jpg'', ''frame_000002.jpg'']
   \<and> 2 \<le> length (nonEmpty [''alpha'', ''alpha''])
   \<and> matrix (buildTfidfMatrix Math_log_nearest [''alpha'', ''alpha'']) = [[1], [1]]
   \<and> originalIndices (buildTfidfMatrix Math_log_nearest [''alpha'', ''alpha'']) = [0, 1]
   \<and> selectRepresentative Math_log_nearest [''frame_000001.jpg'', ''frame_000002.jpg''] [''alpha'', ''alpha'']
       = Inr ''frame_000001.jpg''"
proof -
  note M = matrix_alpha_twice[of Math_log_nearest, OF Math_log_nearest_1]
  have a: "[''frame_000001.jpg'', ''frame_000002.jpg''] \<noteq> []" by simp
  have b: "length [''alpha'', ''alpha''] = length [''frame_000001.jpg'', ''frame_000002.jpg'']" by simp
  have c: "2 \<le> length (nonEmpty [''alpha'', ''alpha''])" by (simp add: nonEmpty_alpha_twice)
  have m: "matrix (buildTfidfMatrix Math_log_nearest [''alpha'', ''alpha'']) = [[1], [1]]" by (simp add: M)
  have oi: "originalIndices (buildTfidfMatrix Math_log_nearest [''alpha'', ''alpha'']) = [0, 1]" by (simp add: M)
  note r = selectRepresentative_cases[OF a b, of Math_log_nearest, THEN conjunct2, THEN conjunct2,
      THEN conjunct2, THEN conjunct1, rule_format, OF c, unfolded Let_def M, THEN conjunct2]
  from r have t: "selectRepresentative Math_log_nearest [''frame_000001.jpg'', ''frame_000002.jpg''] [''alpha'', ''alpha'']
       = Inr ''frame_000001.jpg''"
    by (auto simp: double_small upt_rec less_Suc_eq)
  show ?thesis by (intro conjI a b c m oi t)
qed

section \<open>Properties of the worker pool\<close>

lemma pool_inv_init: "pool_inv tess lng frms wrk (pool_init frms wrk)"
  unfolding pool_inv_def pool_init_def by auto

lemma set_update_cases:
  "x \<in> set (xs[i := y]) \<Longrightarrow> x = y \<or> x \<in> set xs"
  using set_update_subset_insert[of xs i y] by auto

lemma set_update_keeps:
  "i < length xs \<Longrightarrow> x \<in> set xs \<Longrightarrow> x \<noteq> xs ! i \<Longrightarrow> x \<in> set (xs[i := y])"
proof -
  assume "x \<in> set xs" and ne: "x \<noteq> xs ! i"
  then obtain k where k: "k < length xs" and xk: "xs ! k = x" by (auto simp: in_set_conv_nth)
  with ne have "k \<noteq> i" by auto
  then have "xs[i := y] ! k = x" using xk by simp
  moreover have "k < length (xs[i := y])" using k by simp
  ultimately show ?thesis by (metis nth_mem)
qed

lemma pool_inv_step:
  assumes "pool_step tess lng s s'" and "pool_inv tess lng frms wrk s"
  shows "pool_inv tess lng frms wrk s'"
  using assms
proof (induction rule: pool_step.induct)
  case (shift i s framePath rest)
  then have inv: "pool_inv tess lng frms wrk s" by simp
  have notleft: "Left \<notin> set (procs s)"
    using inv shift.hyps(3) unfolding pool_inv_def by auto
  have aw: "Awaiting framePath \<in> set ((procs s)[i := Awaiting framePath])"
    using shift.hyps(1) by (simp add: set_update_memI)
  show ?case
    unfolding pool_inv_def
  proof (intro conjI)
    show "length (procs (s\<lparr>queue := rest, procs := (procs s)[i := Awaiting framePath]\<rparr>))
            = nat (min wrk (int (length frms)))"
      using inv unfolding pool_inv_def by simp
    show "\<forall>f v. results (s\<lparr>queue := rest, procs := (procs s)[i := Awaiting framePath]\<rparr>) f = Some v
            \<longrightarrow> f \<in> set frms \<and> v = ocrFrame tess f lng"
      using inv unfolding pool_inv_def by simp
    show "\<forall>f\<in>set frms. f \<in> dom (results (s\<lparr>queue := rest, procs := (procs s)[i := Awaiting framePath]\<rparr>))
            \<or> f \<in> set (queue (s\<lparr>queue := rest, procs := (procs s)[i := Awaiting framePath]\<rparr>))
            \<or> Awaiting f \<in> set (procs (s\<lparr>queue := rest, procs := (procs s)[i := Awaiting framePath]\<rparr>))"
    proof
      fix f assume f: "f \<in> set frms"
      from inv f have c: "f \<in> dom (results s) \<or> f \<in> set (queue s) \<or> Awaiting f \<in> set (procs s)"
        unfolding pool_inv_def by blast
      have "f \<in> dom (results s) \<or> f \<in> set rest \<or> Awaiting f \<in> set ((procs s)[i := Awaiting framePath])"
      proof (cases "f = framePath")
        case True
        with aw show ?thesis by simp
      next
        case False
        from c show ?thesis
        proof (elim disjE)
          assume "f \<in> dom (results s)" then show ?thesis by simp
        next
          assume "f \<in> set (queue s)"
          with False shift.hyps(3) show ?thesis by simp
        next
          assume a: "Awaiting f \<in> set (procs s)"
          have "Awaiting f \<noteq> procs s ! i" using shift.hyps(2) by simp
          from set_update_keeps[OF shift.hyps(1) a this] show ?thesis by simp
        qed
      qed
      then show "f \<in> dom (results (s\<lparr>queue := rest, procs := (procs s)[i := Awaiting framePath]\<rparr>))
            \<or> f \<in> set (queue (s\<lparr>queue := rest, procs := (procs s)[i := Awaiting framePath]\<rparr>))
            \<or> Awaiting f \<in> set (procs (s\<lparr>queue := rest, procs := (procs s)[i := Awaiting framePath]\<rparr>))"
        by simp
    qed
    show "Left \<in> set (procs (s\<lparr>queue := rest, procs := (procs s)[i := Awaiting framePath]\<rparr>))
            \<longrightarrow> queue (s\<lparr>queue := rest, procs := (procs s)[i := Awaiting framePath]\<rparr>) = []"
      using notleft set_update_cases[of Left "procs s" i "Awaiting framePath"] by auto
    show "set (queue (s\<lparr>queue := rest, procs := (procs s)[i := Awaiting framePath]\<rparr>)) \<subseteq> set frms"
      using inv shift.hyps(3) unfolding pool_inv_def by auto
    show "\<forall>f. Awaiting f \<in> set (procs (s\<lparr>queue := rest, procs := (procs s)[i := Awaiting framePath]\<rparr>))
            \<longrightarrow> f \<in> set frms"
    proof (intro allI impI)
      fix f assume "Awaiting f \<in> set (procs (s\<lparr>queue := rest, procs := (procs s)[i := Awaiting framePath]\<rparr>))"
      then have "Awaiting f \<in> set ((procs s)[i := Awaiting framePath])" by simp
      from set_update_cases[OF this] have "f = framePath \<or> Awaiting f \<in> set (procs s)" by simp
      then show "f \<in> set frms"
        using inv shift.hyps(3) unfolding pool_inv_def by auto
    qed
  qed
next
  case (leave i s)
  then have inv: "pool_inv tess lng frms wrk s" by simp
  show ?case
    unfolding pool_inv_def
  proof (intro conjI)
    show "length (procs (s\<lparr>procs := (procs s)[i := Left]\<rparr>)) = nat (min wrk (int (length frms)))"
      using inv unfolding pool_inv_def by simp
    show "\<forall>f v. results (s\<lparr>procs := (procs s)[i := Left]\<rparr>) f = Some v
            \<longrightarrow> f \<in> set frms \<and> v = ocrFrame tess f lng"
      using inv unfolding pool_inv_def by simp
    show "\<forall>f\<in>set frms. f \<in> dom (results (s\<lparr>procs := (procs s)[i := Left]\<rparr>))
            \<or> f \<in> set (queue (s\<lparr>procs := (procs s)[i := Left]\<rparr>))
            \<or> Awaiting f \<in> set (procs (s\<lparr>procs := (procs s)[i := Left]\<rparr>))"
    proof
      fix f assume f: "f \<in> set frms"
      from inv f have c: "f \<in> dom (results s) \<or> f \<in> set (queue s) \<or> Awaiting f \<in> set (procs s)"
        unfolding pool_inv_def by blast
      have "f \<in> dom (results s) \<or> Awaiting f \<in> set ((procs s)[i := Left])"
        using c
      proof (elim disjE)
        assume "f \<in> dom (results s)" then show ?thesis by simp
      next
        assume "f \<in> set (queue s)" with leave.hyps(3) show ?thesis by simp
      next
        assume a: "Awaiting f \<in> set (procs s)"
        have "Awaiting f \<noteq> procs s ! i" using leave.hyps(2) by simp
        from set_update_keeps[OF leave.hyps(1) a this] show ?thesis by simp
      qed
      then show "f \<in> dom (results (s\<lparr>procs := (procs s)[i := Left]\<rparr>))
            \<or> f \<in> set (queue (s\<lparr>procs := (procs s)[i := Left]\<rparr>))
            \<or> Awaiting f \<in> set (procs (s\<lparr>procs := (procs s)[i := Left]\<rparr>))"
        by auto
    qed
    show "Left \<in> set (procs (s\<lparr>procs := (procs s)[i := Left]\<rparr>))
            \<longrightarrow> queue (s\<lparr>procs := (procs s)[i := Left]\<rparr>) = []"
      using leave.hyps(3) by simp
    show "set (queue (s\<lparr>procs := (procs s)[i := Left]\<rparr>)) \<subseteq> set frms"
      using leave.hyps(3) by simp
    show "\<forall>f. Awaiting f \<in> set (procs (s\<lparr>procs := (procs s)[i := Left]\<rparr>)) \<longrightarrow> f \<in> set frms"
    proof (intro allI impI)
      fix f assume "Awaiting f \<in> set (procs (s\<lparr>procs := (procs s)[i := Left]\<rparr>))"
      then have "Awaiting f \<in> set ((procs s)[i := Left])" by simp
      from set_update_cases[OF this] have "Awaiting f \<in> set (procs s)" by simp
      then show "f \<in> set frms" using inv unfolding pool_inv_def by blast
    qed
  qed
next
  case (store i s framePath)
  then have inv: "pool_inv tess lng frms wrk s" by simp
  have "Awaiting framePath \<in> set (procs s)"
    using store.hyps nth_mem[of i "procs s"] by simp
  then have fp: "framePath \<in> set frms"
    using inv unfolding pool_inv_def by blast
  let ?s' = "s\<lparr>results := (results s)(framePath \<mapsto> ocrFrame tess framePath lng),
               procs := (procs s)[i := AtLoop]\<rparr>"
  show ?case
    unfolding pool_inv_def
  proof (intro conjI)
    show "length (procs ?s') = nat (min wrk (int (length frms)))"
      using inv unfolding pool_inv_def by simp
    show "\<forall>f v. results ?s' f = Some v \<longrightarrow> f \<in> set frms \<and> v = ocrFrame tess f lng"
      using inv fp unfolding pool_inv_def by simp
    show "\<forall>f\<in>set frms. f \<in> dom (results ?s') \<or> f \<in> set (queue ?s') \<or> Awaiting f \<in> set (procs ?s')"
    proof
      fix f assume f: "f \<in> set frms"
      from inv f have c: "f \<in> dom (results s) \<or> f \<in> set (queue s) \<or> Awaiting f \<in> set (procs s)"
        unfolding pool_inv_def by blast
      have "f = framePath \<or> f \<in> dom (results s) \<or> f \<in> set (queue s)
              \<or> Awaiting f \<in> set ((procs s)[i := AtLoop])"
      proof (cases "f = framePath")
        case True then show ?thesis by simp
      next
        case False
        from c show ?thesis
        proof (elim disjE)
          assume "f \<in> dom (results s)" then show ?thesis by simp
        next
          assume "f \<in> set (queue s)" then show ?thesis by simp
        next
          assume a: "Awaiting f \<in> set (procs s)"
          have "Awaiting f \<noteq> procs s ! i" using store.hyps(2) False by simp
          from set_update_keeps[OF store.hyps(1) a this] show ?thesis by simp
        qed
      qed
      then show "f \<in> dom (results ?s') \<or> f \<in> set (queue ?s') \<or> Awaiting f \<in> set (procs ?s')"
        by auto
    qed
    show "Left \<in> set (procs ?s') \<longrightarrow> queue ?s' = []"
      using inv set_update_cases[of Left "procs s" i AtLoop] unfolding pool_inv_def by auto
    show "set (queue ?s') \<subseteq> set frms" using inv unfolding pool_inv_def by simp
    show "\<forall>f. Awaiting f \<in> set (procs ?s') \<longrightarrow> f \<in> set frms"
    proof (intro allI impI)
      fix f assume "Awaiting f \<in> set (procs ?s')"
      then have "Awaiting f \<in> set ((procs s)[i := AtLoop])" by simp
      from set_update_cases[OF this] have "Awaiting f \<in> set (procs s)" by simp
      then show "f \<in> set frms" using inv unfolding pool_inv_def by blast
    qed
  qed
qed

lemma pool_inv_reachable:
  assumes "(pool_step tess lng)\<^sup>*\<^sup>* (pool_init frms wrk) s"
  shows "pool_inv tess lng frms wrk s"
  using assms
proof (induction rule: rtranclp_induct)
  case base
  show ?case by (rule pool_inv_init)
next
  case (step y z)
  from pool_inv_step[OF step.hyps(2) step.IH] show ?case .
qed

lemma pool_no_worker:
  assumes "(pool_step tess lng)\<^sup>*\<^sup>* s0 s" and "procs s0 = []"
  shows "s = s0"
  using assms
proof (induction rule: rtranclp_induct)
  case base
  show ?case ..
next
  case (step y z)
  then have "procs y = []" by simp
  with step.hyps(2) show ?case by (cases rule: pool_step.cases) simp_all
qed

lemma map_of_graph: "map_of (map (\<lambda>k. (k, g k)) xs) k = (if k \<in> set xs then Some (g k) else None)"
  by (induction xs) auto

lemma pool_result:
  assumes "(pool_step tess lng)\<^sup>*\<^sup>* (pool_init frms wrk) s" and "pool_done s"
  shows "results s = ocrAllFrames tess frms lng wrk"
proof (cases "nat (min wrk (int (length frms))) = 0")
  case True
  then have "procs (pool_init frms wrk) = []" by (simp add: pool_init_def)
  from pool_no_worker[OF assms(1) this] have "s = pool_init frms wrk" .
  then show ?thesis using True by (simp add: pool_init_def ocrAllFrames_def)
next
  case False
  note inv = pool_inv_reachable[OF assms(1)]
  from inv False have "procs s \<noteq> []" unfolding pool_inv_def by auto
  then obtain w where w: "w \<in> set (procs s)" by (cases "procs s") auto
  from assms(2) have all: "\<forall>w \<in> set (procs s). w = Left"
    unfolding pool_done_def list_all_iff .
  with w have "Left \<in> set (procs s)" by auto
  with inv have q: "queue s = []" unfolding pool_inv_def by blast
  have na: "Awaiting f \<notin> set (procs s)" for f using all by auto
  have "results s f = ocrAllFrames tess frms lng wrk f" for f
  proof (cases "f \<in> set frms")
    case True
    with inv q na have "f \<in> dom (results s)" unfolding pool_inv_def by auto
    then obtain v where v: "results s f = Some v" by auto
    with inv have "v = ocrFrame tess f lng" unfolding pool_inv_def by blast
    with v True False show ?thesis by (simp add: ocrAllFrames_def map_of_graph)
  next
    case nf: False
    have "results s f = None"
    proof (cases "results s f")
      case None then show ?thesis .
    next
      case (Some v)
      with inv have "f \<in> set frms" unfolding pool_inv_def by blast
      with nf show ?thesis by simp
    qed
    with nf False show ?thesis by (simp add: ocrAllFrames_def map_of_graph)
  qed
  then show ?thesis by (rule ext)
qed

lemma worker_weight_update:
  fixes wt :: "worker \<Rightarrow> nat"
  assumes "i < length ws"
  shows "sum_list (map wt (ws[i := w])) + wt (ws ! i) = sum_list (map wt ws) + wt w"
  using assms
proof (induction ws arbitrary: i)
  case Nil
  then show ?case by simp
next
  case (Cons a ws)
  then show ?case by (cases i) auto
qed

lemma pool_step_decreases:
  assumes "pool_step tess lng s s'"
  shows "pool_measure s' < pool_measure s"
  using assms
proof (cases rule: pool_step.cases)
  case (shift i framePath rest)
  from worker_weight_update[OF shift(2), of worker_weight "Awaiting framePath"]
  show ?thesis unfolding pool_measure_def shift(1) using shift(3,4) by simp
next
  case (leave i)
  from worker_weight_update[OF leave(2), of worker_weight Left]
  show ?thesis unfolding pool_measure_def leave(1) using leave(3) by simp
next
  case (store i framePath)
  from worker_weight_update[OF store(2), of worker_weight AtLoop]
  show ?thesis unfolding pool_measure_def store(1) using store(3) by simp
qed

lemma pool_progress:
  assumes "\<not> pool_done s"
  shows "\<exists>s'. pool_step tess lng s s'"
proof -
  from assms obtain w where w: "w \<in> set (procs s)" and nl: "w \<noteq> Left"
    unfolding pool_done_def list_all_iff by auto
  then obtain i where i: "i < length (procs s)" and wi: "procs s ! i = w"
    by (auto simp: in_set_conv_nth)
  show ?thesis
  proof (cases w)
    case AtLoop
    show ?thesis
    proof (cases "queue s")
      case Nil
      from pool_step.leave[OF i _ Nil, of tess lng] wi AtLoop show ?thesis by auto
    next
      case (Cons f rest)
      from pool_step.shift[OF i _ Cons, of tess lng] wi AtLoop show ?thesis by auto
    qed
  next
    case (Awaiting f)
    from pool_step.store[OF i, of f tess lng] wi Awaiting show ?thesis by auto
  next
    case Left
    with nl show ?thesis by simp
  qed
qed

lemma pool_terminates: "wf {(s', s). pool_step tess lng s s'}"
  by (rule wf_subset[OF wf_measure[of pool_measure]]) (auto dest: pool_step_decreases)

lemma pool_completes: "\<exists>s'. (pool_step tess lng)\<^sup>*\<^sup>* s s' \<and> pool_done s'"
proof (induction s rule: wf_induct_rule[OF pool_terminates[of tess lng]])
  case (1 s)
  show ?case
  proof (cases "pool_done s")
    case True
    then show ?thesis by blast
  next
    case False
    from pool_progress[OF False, of tess lng] obtain s1 where s1: "pool_step tess lng s s1" by blast
    then have "(s1, s) \<in> {(s', s). pool_step tess lng s s'}" by simp
    from 1[OF this] obtain s' where "(pool_step tess lng)\<^sup>*\<^sup>* s1 s'" and d: "pool_done s'" by blast
    with s1 have "(pool_step tess lng)\<^sup>*\<^sup>* s s'" by (meson converse_rtranclp_into_rtranclp)
    with d show ?thesis by blast
  qed
qed

text \<open>
  With at least one worker every complete run of the pool stores, for every frame, the
  text of \<open>ocrFrame\<close>: the output of tesseract, or the empty text when tesseract failed.
\<close>

lemma pool_all_frames:
  assumes "1 \<le> wrk" and "(pool_step tess lng)\<^sup>*\<^sup>* (pool_init frms wrk) s" and "pool_done s"
    and "f \<in> set frms"
  shows "results s f = Some (case tess f lng of Inr out \<Rightarrow> out | Inl e \<Rightarrow> [])"
proof -
  from assms(4) have "frms \<noteq> []" by auto
  with assms(1) have "nat (min wrk (int (length frms))) \<noteq> 0" by (cases frms) auto
  with pool_result[OF assms(2,3)] assms(4) show ?thesis
    by (simp add: ocrAllFrames_def map_of_graph ocrFrame_def)
qed

text \<open>
  Claim C7. The result of the OCR stage should map every sampled frame to one text. With
  \<open>workers = 0\<close>, a value that the upload route passes on from its query, no call of
  \<^verbatim>\<open>processNext\<close> is started: the pool is complete in its initial state and the one frame
  has no text in the result. (With at least one worker every frame gets its text, empty
  when tesseract failed, by \<open>pool_all_frames\<close>; every run ends, by \<open>pool_completes\<close>.)
\<close>

theorem ocrAllFrames_without_worker:
  "pool_done (pool_init [''frame_000001.jpg''] 0)
   \<and> results (pool_init [''frame_000001.jpg''] 0) ''frame_000001.jpg'' = None
   \<and> ocrAllFrames (\<lambda>f l. Inr ''slide one'') [''frame_000001.jpg''] ''eng'' 0 ''frame_000001.jpg'' = None"
  by (simp add: pool_done_def pool_init_def ocrAllFrames_def)

section \<open>The grouping returns\<close>

lemma cluster_push_nonempty:
  "\<forall>(l, idxs) \<in> set m. idxs \<noteq> [] \<Longrightarrow> \<forall>(l, idxs) \<in> set (cluster_push m label i). idxs \<noteq> []"
  by (induction m label i rule: cluster_push.induct) auto

lemma clusterMap_fold_nonempty:
  "\<forall>(l, idxs) \<in> set m. idxs \<noteq> [] \<Longrightarrow>
   \<forall>(l, idxs) \<in> set (fold (\<lambda>i m. cluster_push m (f i) i) is m). idxs \<noteq> []"
proof (induction "is" arbitrary: m)
  case Nil
  then show ?case by simp
next
  case (Cons i "is")
  show ?case unfolding fold_Cons comp_apply
    by (rule Cons.IH) (rule cluster_push_nonempty[OF Cons.prems])
qed

lemma clusterMap_nonempty: "(l, idxs) \<in> set (clusterMap labels) \<Longrightarrow> idxs \<noteq> []"
  using clusterMap_fold_nonempty[of "[]" "\<lambda>i. labels ! i" "[0..<length labels]"]
  unfolding clusterMap_def by fastforce

lemma selectRepresentative_returns:
  "ps \<noteq> [] \<Longrightarrow> \<exists>p. selectRepresentative lg ps ts = Inr p"
  unfolding selectRepresentative_def Let_def by simp

lemma make_group_returns:
  assumes "idxs \<noteq> []" and "\<forall>a b. fs_copyFile e a b = None"
  shows "\<exists>g. make_group e frms txts rd gi idxs = Inr g"
proof -
  from assms(1) have "map (\<lambda>i. frms ! i) idxs \<noteq> []" by simp
  from selectRepresentative_returns[OF this, of "Math_log e" "map (\<lambda>i. txts ! i) idxs"]
  obtain p where "selectRepresentative (Math_log e) (map (\<lambda>i. frms ! i) idxs) (map (\<lambda>i. txts ! i) idxs) = Inr p"
    by blast
  then show ?thesis unfolding make_group_def Let_def using assms(2) by simp
qed

lemma build_groups_returns:
  assumes "\<forall>idxs \<in> set cs. idxs \<noteq> []" and "\<forall>a b. fs_copyFile e a b = None"
  shows "\<exists>gs. build_groups e frms txts rd gi cs = Inr gs"
  using assms(1)
proof (induction cs arbitrary: gi)
  case Nil
  then show ?case by simp
next
  case (Cons c cs)
  then have "c \<noteq> []" by simp
  from make_group_returns[OF this assms(2), of frms txts rd gi]
  obtain g where g: "make_group e frms txts rd gi c = Inr g" by blast
  from Cons obtain gs where "build_groups e frms txts rd (gi + 1) cs = Inr gs" by force
  with g show ?case by simp
qed

text \<open>
  When the directory of the representatives can be made and every copy succeeds, steps 3
  and 4 of the pipeline return the groups.
\<close>

lemma group_frames_returns:
  assumes "fs_mkdir e (path_join e od ''representative_frames'') = None"
    and "\<forall>a b. fs_copyFile e a b = None"
  shows "\<exists>gs. group_frames e nCl eps od frms txts = Inr gs"
proof -
  let ?cs = "map (\<lambda>c. fst (snd c)) (sortedClusters e frms (frame_labels e nCl eps frms txts))"
  have "\<forall>idxs \<in> set ?cs. idxs \<noteq> []"
  proof
    fix idxs assume "idxs \<in> set ?cs"
    then have "idxs \<in> snd ` set (clusterMap (frame_labels e nCl eps frms txts))"
      by (simp only: sortedClusters_indices_set)
    then obtain l where "(l, idxs) \<in> set (clusterMap (frame_labels e nCl eps frms txts))" by force
    then show "idxs \<noteq> []" by (rule clusterMap_nonempty)
  qed
  from build_groups_returns[OF this assms(2)]
  show ?thesis unfolding group_frames_def Let_def using assms(1) by simp
qed

end
